theory Spec2Isabelle
  imports Main
begin

section \<open>The job table of tsh (tinyShell.c)\<close>

text \<open>
  The shell keeps its jobs in a global array \<^verbatim>\<open>struct job_t jobs[MAXJOBS]\<close> and a global
  counter \<^verbatim>\<open>nextjid\<close>. The array is a list of records here, a pointer into the array is
  the index of the slot, and \<^verbatim>\<open>NULL\<close> is \<open>None\<close>. C's \<^verbatim>\<open>int\<close> and \<^verbatim>\<open>pid_t\<close> are
  \<open>int\<close>: every value the code computes is a pid handed in by the kernel, a job ID
  (one more than a job ID already in the table, so it would take more than \<open>2^31\<close>
  registrations to leave the range of a C \<^verbatim>\<open>int\<close>) or a small constant.
\<close>

subsection \<open>Constants\<close>

definition MAXJOBS :: nat where
  "MAXJOBS = 16"

definition UNDEF :: int where "UNDEF = 0"
definition FG :: int where "FG = 1"
definition BG :: int where "BG = 2"
definition ST :: int where "ST = 3"

text \<open>The signal numbers of \<^verbatim>\<open><signal.h>\<close> on Linux (x86, ARM).\<close>

definition SIGINT :: int where "SIGINT = 2"
definition SIGCONT :: int where "SIGCONT = 18"
definition SIGTSTP :: int where "SIGTSTP = 20"

subsection \<open>State\<close>

record job_t =
  pid :: int
  jid :: int
  state :: int
  cmdline :: string

text \<open>
  What the shell does to the outside world: a call of \<^verbatim>\<open>printf\<close> with its format string
  and arguments, and a call of \<^verbatim>\<open>kill\<close> with its target and signal. They are kept in
  one list, in the order of the calls.
\<close>

datatype arg = Num int | Str string

datatype effect = Printf string "arg list" | Kill int int

record shell =
  jobs :: "job_t list"
  nextjid :: int
  verbose :: bool
  trace :: "effect list"

definition emit :: "effect \<Rightarrow> shell \<Rightarrow> shell" where
  "emit e s = s\<lparr>trace := trace s @ [e]\<rparr>"

subsection \<open>Scanning the table\<close>

text \<open>
  Six functions of the source run the loop
  \<^verbatim>\<open>for (i = 0; i < MAXJOBS; i++) if (<test on jobs[i]>) return ...;\<close>
  and differ in the test and in what they return from the slot found.
  \<open>first_slot P js i\<close> is that loop from index \<open>i\<close> on: the first slot that passes the test.
\<close>

function first_slot :: "(job_t \<Rightarrow> bool) \<Rightarrow> job_t list \<Rightarrow> nat \<Rightarrow> nat option" where
  "first_slot P js i =
     (if i < MAXJOBS then (if P (js ! i) then Some i else first_slot P js (Suc i)) else None)"
  by pat_completeness auto
termination
  by (relation "measure (\<lambda>(P, js, i). MAXJOBS - i)") auto

declare first_slot.simps [simp del]

definition clearjob :: "job_t \<Rightarrow> job_t" where
  "clearjob job = job\<lparr>pid := 0, jid := 0, state := UNDEF, cmdline := []\<rparr>"

function initjobs_loop :: "job_t list \<Rightarrow> nat \<Rightarrow> job_t list" where
  "initjobs_loop js i =
     (if i < MAXJOBS then initjobs_loop (js[i := clearjob (js ! i)]) (Suc i) else js)"
  by pat_completeness auto
termination
  by (relation "measure (\<lambda>(js, i). MAXJOBS - i)") auto

declare initjobs_loop.simps [simp del]

definition initjobs :: "job_t list \<Rightarrow> job_t list" where
  "initjobs js = initjobs_loop js 0"

function maxjid_loop :: "job_t list \<Rightarrow> nat \<Rightarrow> int \<Rightarrow> int" where
  "maxjid_loop js i mx =
     (if i < MAXJOBS
      then maxjid_loop js (Suc i) (if jid (js ! i) > mx then jid (js ! i) else mx)
      else mx)"
  by pat_completeness auto
termination
  by (relation "measure (\<lambda>(js, i, mx). MAXJOBS - i)") auto

declare maxjid_loop.simps [simp del]

definition maxjid :: "job_t list \<Rightarrow> int" where
  "maxjid js = maxjid_loop js 0 0"

text \<open>
  \<open>addjob\<close> returns the C function's result (1 or 0) and the new state. The job goes
  into the first slot whose pid is 0.
\<close>

definition addjob :: "shell \<Rightarrow> int \<Rightarrow> int \<Rightarrow> string \<Rightarrow> int \<times> shell" where
  "addjob s p st cmd =
     (if p < 1 then (0, s)
      else case first_slot (\<lambda>j. pid j = 0) (jobs s) 0 of
        Some i \<Rightarrow>
          let job = (jobs s ! i)\<lparr>pid := p, state := st, jid := nextjid s, cmdline := cmd\<rparr>;
              nj = nextjid s + 1;
              s1 = s\<lparr>jobs := (jobs s)[i := job],
                     nextjid := (if nj > int MAXJOBS then 1 else nj)\<rparr>
          in (1, if verbose s
                 then emit (Printf ''Added job [%d] %d %s\<newline>'' [Num (jid job), Num (pid job), Str (cmdline job)]) s1
                 else s1)
      | None \<Rightarrow> (0, emit (Printf ''Tried to create too many jobs\<newline>'' []) s))"

definition deletejob :: "shell \<Rightarrow> int \<Rightarrow> int \<times> shell" where
  "deletejob s p =
     (if p < 1 then (0, s)
      else case first_slot (\<lambda>j. pid j = p) (jobs s) 0 of
        Some i \<Rightarrow>
          let js = (jobs s)[i := clearjob (jobs s ! i)]
          in (1, s\<lparr>jobs := js, nextjid := maxjid js + 1\<rparr>)
      | None \<Rightarrow> (0, s))"

definition fgpid :: "job_t list \<Rightarrow> int" where
  "fgpid js = (case first_slot (\<lambda>j. state j = FG) js 0 of Some i \<Rightarrow> pid (js ! i) | None \<Rightarrow> 0)"

definition getjobpid :: "job_t list \<Rightarrow> int \<Rightarrow> nat option" where
  "getjobpid js p = (if p < 1 then None else first_slot (\<lambda>j. pid j = p) js 0)"

definition getjobjid :: "job_t list \<Rightarrow> int \<Rightarrow> nat option" where
  "getjobjid js n = (if n < 1 then None else first_slot (\<lambda>j. jid j = n) js 0)"

definition pid2jid :: "shell \<Rightarrow> int \<Rightarrow> int" where
  "pid2jid s p =
     (if p < 1 then 0
      else case first_slot (\<lambda>j. pid j = p) (jobs s) 0 of
        Some i \<Rightarrow> jid (jobs s ! i)
      | None \<Rightarrow> 0)"

text \<open>
  The state at the start of \<^verbatim>\<open>main\<close>'s loop: the globals as C initialises them, after
  \<^verbatim>\<open>initjobs(jobs)\<close>.
\<close>

definition init_shell :: shell where
  "init_shell =
     \<lparr>jobs = initjobs (replicate MAXJOBS \<lparr>pid = 0, jid = 0, state = 0, cmdline = []\<rparr>),
      nextjid = 1, verbose = False, trace = []\<rparr>"

section \<open>Signal handlers\<close>

text \<open>
  \<^verbatim>\<open>waitpid\<close> hands the handler a pid and a status word that the macros of
  \<^verbatim>\<open><sys/wait.h>\<close> decode. The decoded status is a datatype: \<^verbatim>\<open>WIFEXITED\<close> with its exit
  code, \<^verbatim>\<open>WIFSIGNALED\<close> with \<^verbatim>\<open>WTERMSIG\<close>, \<^verbatim>\<open>WIFSTOPPED\<close> with \<^verbatim>\<open>WSTOPSIG\<close>, and a
  status that is none of the three.
\<close>

datatype wstatus = Exited int | Signaled int | Stopped int | Continued

text \<open>The one way the modelled code can crash: writing through a \<^verbatim>\<open>NULL\<close> job pointer.\<close>

datatype error = NullDeref

text \<open>
  \<open>reap p w s\<close> is the body of the loop of \<^verbatim>\<open>sigchld_handler\<close> for one child that
  \<^verbatim>\<open>waitpid\<close> returned. In the stopped branch the source writes
  \<^verbatim>\<open>thisjob->state = ST\<close> without testing \<^verbatim>\<open>thisjob\<close>.
\<close>

fun reap :: "int \<Rightarrow> wstatus \<Rightarrow> shell \<Rightarrow> error + shell" where
  "reap p (Exited c) s = Inr (snd (deletejob s p))"
| "reap p (Signaled n) s =
     Inr (snd (deletejob
       (emit (Printf ''Job [%d] (%d) terminated by signal %d\<newline>'' [Num (pid2jid s p), Num p, Num n]) s) p))"
| "reap p (Stopped n) s =
     (case getjobpid (jobs s) p of
        None \<Rightarrow> Inl NullDeref
      | Some i \<Rightarrow>
          let s1 = s\<lparr>jobs := (jobs s)[i := (jobs s ! i)\<lparr>state := ST\<rparr>]\<rparr>
          in Inr (emit (Printf ''Job [%d] (%d) stopped by signal %d\<newline>'' [Num (pid2jid s1 p), Num p, Num n]) s1))"
| "reap p Continued s = Inr s"

text \<open>
  The handler's loop \<^verbatim>\<open>while ((pid = waitpid(-1, &status, WUNTRACED|WNOHANG)) > 0)\<close>.
  Its argument is what the successive calls of \<^verbatim>\<open>waitpid\<close> return; after the last
  element \<^verbatim>\<open>waitpid\<close> has no child to report and returns 0 or -1.
\<close>

fun sigchld_handler :: "(int \<times> wstatus) list \<Rightarrow> shell \<Rightarrow> error + shell" where
  "sigchld_handler [] s = Inr s"
| "sigchld_handler ((p, w) # rest) s =
     (if p > 0
      then (case reap p w s of Inl e \<Rightarrow> Inl e | Inr s' \<Rightarrow> sigchld_handler rest s')
      else Inr s)"

definition sigint_handler :: "int \<Rightarrow> shell \<Rightarrow> shell" where
  "sigint_handler sig s =
     (let p = fgpid (jobs s)
      in if getjobpid (jobs s) p = None then s else emit (Kill (- p) sig) s)"

definition sigtstp_handler :: "int \<Rightarrow> shell \<Rightarrow> shell" where
  "sigtstp_handler sig s =
     (let p = fgpid (jobs s)
      in if getjobpid (jobs s) p = None then s else emit (Kill (- p) sig) s)"

text \<open>
  A signal delivered to the shell, and the handler \<^verbatim>\<open>main\<close> installed for it. A handler
  runs to its end before the interrupted code goes on.
\<close>

datatype sigev = SigChld "(int \<times> wstatus) list" | SigInt | SigTstp

fun handle :: "sigev \<Rightarrow> shell \<Rightarrow> error + shell" where
  "handle (SigChld ws) s = sigchld_handler ws s"
| "handle SigInt s = Inr (sigint_handler SIGINT s)"
| "handle SigTstp s = Inr (sigtstp_handler SIGTSTP s)"

fun handle_all :: "sigev list \<Rightarrow> shell \<Rightarrow> error + shell" where
  "handle_all [] s = Inr s"
| "handle_all (e # es) s =
     (case handle e s of Inl err \<Rightarrow> Inl err | Inr s' \<Rightarrow> handle_all es s')"

section \<open>Waiting for the foreground job\<close>

text \<open>
  \<^verbatim>\<open>waitfg\<close> reads the table, sleeps, and reads it again; only signal handlers change the
  table meanwhile. The second argument lists, for each call of \<^verbatim>\<open>sleep(1)\<close>, the signals
  handled during it; after the last element no signal arrives any more. The result is
  \<open>None\<close> when the loop never ends, \<open>Some (Inl e)\<close> when a handler crashed during the
  wait, and \<open>Some (Inr s)\<close> when \<^verbatim>\<open>waitfg\<close> returns in state \<open>s\<close>.
\<close>

fun waitfg_loop :: "nat \<Rightarrow> sigev list list \<Rightarrow> shell \<Rightarrow> (error + shell) option" where
  "waitfg_loop i [] s = (if state (jobs s ! i) = FG then None else Some (Inr s))"
| "waitfg_loop i (sigs # env) s =
     (if state (jobs s ! i) = FG
      then (case handle_all sigs s of
              Inl e \<Rightarrow> Some (Inl e)
            | Inr s' \<Rightarrow> waitfg_loop i env s')
      else Some (Inr s))"

definition waitfg :: "int \<Rightarrow> sigev list list \<Rightarrow> shell \<Rightarrow> (error + shell) option" where
  "waitfg p env s =
     (case getjobpid (jobs s) p of
        None \<Rightarrow> Some (Inr s)
      | Some i \<Rightarrow> waitfg_loop i env s)"

section \<open>The built-in commands bg and fg\<close>

text \<open>
  \<^verbatim>\<open>isdigit\<close> and \<^verbatim>\<open>atoi\<close> are the C library's. \<^verbatim>\<open>atoi(s)\<close> is
  \<^verbatim>\<open>(int) strtol(s, NULL, 10)\<close>: \<^verbatim>\<open>strtol\<close> skips white space, reads an optional sign and
  then decimal digits up to the first other character, and returns \<^verbatim>\<open>LONG_MAX\<close> or
  \<^verbatim>\<open>LONG_MIN\<close> (64 bits) when the number does not fit; the conversion to the 32-bit
  \<^verbatim>\<open>int\<close> that the source stores the result in keeps the low 32 bits, so that
  \<^verbatim>\<open>atoi("4294967297")\<close> is 1.
\<close>

definition isdigit :: "char \<Rightarrow> bool" where
  "isdigit c \<longleftrightarrow> c \<in> set ''0123456789''"

definition isspace :: "char \<Rightarrow> bool" where
  "isspace c \<longleftrightarrow> c \<in> {CHR '' '', CHR 0x09, CHR 0x0A, CHR 0x0B, CHR 0x0C, CHR 0x0D}"

fun atoi_digits :: "int \<Rightarrow> string \<Rightarrow> int" where
  "atoi_digits acc [] = acc"
| "atoi_digits acc (c # cs) =
     (if isdigit c then atoi_digits (10 * acc + (int (of_char c) - 48)) cs else acc)"

definition clamp_long :: "int \<Rightarrow> int" where
  "clamp_long n = max (- (2 ^ 63)) (min (2 ^ 63 - 1) n)"

definition to_int32 :: "int \<Rightarrow> int" where
  "to_int32 n = (n + 2 ^ 31) mod 2 ^ 32 - 2 ^ 31"

definition strtol :: "string \<Rightarrow> int" where
  "strtol str =
     clamp_long
       (case dropWhile isspace str of
          [] \<Rightarrow> 0
        | c # cs \<Rightarrow>
            if c = CHR ''-'' then - atoi_digits 0 cs
            else if c = CHR ''+'' then atoi_digits 0 cs
            else atoi_digits 0 (c # cs))"

definition atoi :: "string \<Rightarrow> int" where
  "atoi str = to_int32 (strtol str)"

text \<open>
  \<^verbatim>\<open>do_bgfg\<close> takes \<^verbatim>\<open>argv[0]\<close> as \<open>cmd\<close> and the arguments after it as \<open>rest\<close>
  (\<open>rest = []\<close> is \<^verbatim>\<open>argv[1] == NULL\<close>). It is written in two parts. \<open>bgfg_switch\<close> is
  the second half of the source function (from \<^verbatim>\<open>if(!strcmp("bg", argv[0]))\<close> on), for
  the job in slot \<open>i\<close> and the pid \<open>p\<close> the first half found; \<open>bgfg_step\<close> is the function
  up to its last statement. Both return the state and, when that last statement is the call
  \<^verbatim>\<open>waitfg(pid)\<close>, the pid.
\<close>

definition bgfg_switch :: "string \<Rightarrow> nat \<Rightarrow> int \<Rightarrow> shell \<Rightarrow> shell \<times> int option" where
  "bgfg_switch cmd i p s =
     (if cmd = ''bg'' then
        let s1 = s\<lparr>jobs := (jobs s)[i := (jobs s ! i)\<lparr>state := BG\<rparr>]\<rparr>;
            s2 = emit (Printf ''[%d] (%d) %s'' [Num (pid2jid s1 p), Num p, Str (cmdline (jobs s1 ! i))]) s1
        in (emit (Kill (- p) SIGCONT) s2, None)
      else if cmd = ''fg'' then
        let s1 = s\<lparr>jobs := (jobs s)[i := (jobs s ! i)\<lparr>state := FG\<rparr>]\<rparr>
        in (emit (Kill (- p) SIGCONT) s1, Some p)
      else (s, None))"

definition bgfg_step :: "string \<Rightarrow> string list \<Rightarrow> shell \<Rightarrow> shell \<times> int option" where
  "bgfg_step cmd rest s =
     (case rest of
        [] \<Rightarrow> (emit (Printf ''%s command requires PID or %%jobid argument\<newline>'' [Str cmd]) s, None)
      | a1 # _ \<Rightarrow>
          (case a1 of
             c # cs \<Rightarrow>
               if c = CHR ''%'' then
                 (case getjobjid (jobs s) (atoi cs) of
                    None \<Rightarrow> (emit (Printf ''%s: No such job\<newline>'' [Str a1]) s, None)
                  | Some i \<Rightarrow> bgfg_switch cmd i (pid (jobs s ! i)) s)
               else if isdigit c then
                 (case getjobpid (jobs s) (atoi a1) of
                    None \<Rightarrow> (emit (Printf ''(%d): No such process\<newline>'' [Num (atoi a1)]) s, None)
                  | Some i \<Rightarrow> bgfg_switch cmd i (atoi a1) s)
               else (emit (Printf ''%s: argument must be a PID or %%jobid\<newline>'' [Str cmd]) s, None)
           | [] \<Rightarrow> (emit (Printf ''%s: argument must be a PID or %%jobid\<newline>'' [Str cmd]) s, None)))"

definition do_bgfg :: "string \<Rightarrow> string list \<Rightarrow> sigev list list \<Rightarrow> shell \<Rightarrow> (error + shell) option" where
  "do_bgfg cmd rest env s =
     (case bgfg_step cmd rest s of
        (s', None) \<Rightarrow> Some (Inr s')
      | (s', Some p) \<Rightarrow> waitfg p env s')"

section \<open>Launching a job\<close>

text \<open>
  \<open>eval_parent\<close> is what \<^verbatim>\<open>eval\<close> does in the parent after \<^verbatim>\<open>fork\<close> returned the child's
  pid \<open>p > 0\<close>, for a command line \<open>cmd\<close> that \<^verbatim>\<open>parseline\<close> found to be a background
  job (\<open>bg\<close>) or not. \<^verbatim>\<open>SIGCHLD\<close> is blocked until the job is added. The result of
  \<^verbatim>\<open>addjob\<close> is not looked at.
\<close>

definition eval_parent :: "bool \<Rightarrow> int \<Rightarrow> string \<Rightarrow> sigev list list \<Rightarrow> shell \<Rightarrow> (error + shell) option" where
  "eval_parent bg p cmd env s =
     (if \<not> bg then waitfg p env (snd (addjob s p FG cmd))
      else
        let s1 = snd (addjob s p BG cmd)
        in Some (Inr (emit (Printf ''[%d] (%d) %s'' [Num (pid2jid s1 p), Num p, Str cmd]) s1)))"

text \<open>
  What happens to the shell, one event after the other: a command line that launches a
  child (with the signals handled while the shell waits for it), a \<^verbatim>\<open>bg\<close> or \<^verbatim>\<open>fg\<close>
  command, or a signal at the prompt.
\<close>

datatype event =
  Launch bool int string "sigev list list"
| BgFgCmd string "string list" "sigev list list"
| Signal sigev

fun shell_step :: "event \<Rightarrow> shell \<Rightarrow> (error + shell) option" where
  "shell_step (Launch bg p cmd env) s = eval_parent bg p cmd env s"
| "shell_step (BgFgCmd cmd rest env) s = do_bgfg cmd rest env s"
| "shell_step (Signal e) s = Some (handle e s)"

fun shell_run :: "event list \<Rightarrow> shell \<Rightarrow> (error + shell) option" where
  "shell_run [] s = Some (Inr s)"
| "shell_run (e # es) s =
     (case shell_step e s of
        None \<Rightarrow> None
      | Some (Inl err) \<Rightarrow> Some (Inl err)
      | Some (Inr s') \<Rightarrow> shell_run es s')"

section \<open>Sequences of job-table operations\<close>

text \<open>
  The operations that change the table: \<open>addjob\<close>, \<open>deletejob\<close>, what \<open>do_bgfg\<close> does
  before it waits, and the child-status handler for one reaped child.
\<close>

datatype table_op =
  AddJob int int string
| DeleteJob int
| BgFg string "string list"
| Reap int wstatus

fun apply_op :: "table_op \<Rightarrow> shell \<Rightarrow> error + shell" where
  "apply_op (AddJob p st cmd) s = Inr (snd (addjob s p st cmd))"
| "apply_op (DeleteJob p) s = Inr (snd (deletejob s p))"
| "apply_op (BgFg cmd rest) s = Inr (fst (bgfg_step cmd rest s))"
| "apply_op (Reap p w) s = reap p w s"

fun run :: "table_op list \<Rightarrow> shell \<Rightarrow> error + shell" where
  "run [] s = Inr s"
| "run (op # ops) s = (case apply_op op s of Inl e \<Rightarrow> Inl e | Inr s' \<Rightarrow> run ops s')"

section \<open>Properties of tables and of runs\<close>

text \<open>
  A slot is either as \<open>clearjob\<close> leaves it or holds a job with a pid and a job ID of at
  least 1; the table has \<open>MAXJOBS\<close> slots.
\<close>

definition slot_ok :: "job_t \<Rightarrow> bool" where
  "slot_ok j \<longleftrightarrow>
     (pid j = 0 \<and> jid j = 0 \<and> state j = UNDEF \<and> cmdline j = []) \<or> (1 \<le> pid j \<and> 1 \<le> jid j)"

definition wf_jobs :: "job_t list \<Rightarrow> bool" where
  "wf_jobs js \<longleftrightarrow> length js = MAXJOBS \<and> list_all slot_ok js"

definition wf_shell :: "shell \<Rightarrow> bool" where
  "wf_shell s \<longleftrightarrow> wf_jobs (jobs s) \<and> 1 \<le> nextjid s"

text \<open>No two jobs of the table have the same pid (the kernel hands out a pid once).\<close>

definition distinct_pids :: "job_t list \<Rightarrow> bool" where
  "distinct_pids js \<longleftrightarrow> distinct (filter (\<lambda>p. p \<noteq> 0) (map pid js))"

text \<open>The number of slots whose state is \<open>FG\<close>.\<close>

definition fg_count :: "job_t list \<Rightarrow> nat" where
  "fg_count js = length (filter (\<lambda>j. state j = FG) js)"

text \<open>The table holds a job with pid \<open>p\<close>, and its state is \<open>FG\<close>.\<close>

definition fg_job :: "job_t list \<Rightarrow> int \<Rightarrow> bool" where
  "fg_job js p \<longleftrightarrow> (case getjobpid js p of None \<Rightarrow> False | Some i \<Rightarrow> state (js ! i) = FG)"

text \<open>No two jobs of the table have the same job ID.\<close>

definition distinct_jids :: "job_t list \<Rightarrow> bool" where
  "distinct_jids js \<longleftrightarrow> distinct (filter (\<lambda>n. n \<noteq> 0) (map jid js))"

text \<open>
  The state after the signals of the first sleeps were handled, one list of signals per
  call of \<^verbatim>\<open>sleep(1)\<close>.
\<close>

fun handle_rounds :: "sigev list list \<Rightarrow> shell \<Rightarrow> error + shell" where
  "handle_rounds [] s = Inr s"
| "handle_rounds (sigs # env) s =
     (case handle_all sigs s of Inl e \<Rightarrow> Inl e | Inr s' \<Rightarrow> handle_rounds env s')"

text \<open>
  Slot \<open>i\<close> follows the job with pid \<open>p\<close>: the job is in slot \<open>i\<close>, or no slot holds \<open>p\<close> and
  slot \<open>i\<close> is not in state \<open>FG\<close>.
\<close>

definition follows :: "int \<Rightarrow> nat \<Rightarrow> shell \<Rightarrow> bool" where
  "follows p i s \<longleftrightarrow>
     wf_jobs (jobs s) \<and> distinct_pids (jobs s) \<and>
     (getjobpid (jobs s) p = Some i \<or> (getjobpid (jobs s) p = None \<and> state (jobs s ! i) \<noteq> FG))"


text \<open>
  What holds whenever the shell is at its prompt: the table is well-formed, its pids are
  distinct, and no slot is in state \<open>FG\<close>.
\<close>

definition at_prompt :: "shell \<Rightarrow> bool" where
  "at_prompt s \<longleftrightarrow> wf_shell s \<and> distinct_pids (jobs s) \<and> fg_count (jobs s) = 0"

text \<open>
  A sequence of operations in which no registration wraps the counter: \<open>addjob\<close> is only
  called while \<open>nextjid\<close> is below \<open>MAXJOBS\<close>.
\<close>

fun never_wraps :: "table_op list \<Rightarrow> shell \<Rightarrow> bool" where
  "never_wraps [] s = True"
| "never_wraps (op # ops) s =
     ((case op of AddJob p st cmd \<Rightarrow> nextjid s < int MAXJOBS | _ \<Rightarrow> True) \<and>
      (case apply_op op s of Inl e \<Rightarrow> True | Inr s' \<Rightarrow> never_wraps ops s'))"

text \<open>The counter is above every job ID of the table, and the job IDs are distinct.\<close>

definition ids_in_order :: "shell \<Rightarrow> bool" where
  "ids_in_order s \<longleftrightarrow> wf_shell s \<and> maxjid (jobs s) < nextjid s \<and> distinct_jids (jobs s)"

section \<open>Example states\<close>

text \<open>
  States the shell reaches, used to run the theorems below on concrete input: after
  \<^verbatim>\<open>vi\<close> was started in the foreground and \<^verbatim>\<open>sleep 5 &\<close> in the background, and after
  sixteen background jobs were started, which fills the table.
\<close>

definition two_jobs :: shell where
  "two_jobs = snd (addjob (snd (addjob init_shell 5 FG ''vi\<newline>'')) 6 BG ''sleep 5 &\<newline>'')"

definition sixteen_jobs :: shell where
  "sixteen_jobs = fold (\<lambda>p s. snd (addjob s (int p) BG ''sleep 100 &\<newline>'')) [101..<117] init_shell"



text \<open>
  Three registrations and the removal of the second job; and the same session as the shell
  runs it, with one more registration.
\<close>

definition id_session :: "table_op list" where
  "id_session = [AddJob 1 BG ''a &'', AddJob 2 BG ''b &'', AddJob 3 BG ''c &'', DeleteJob 2]"

definition after_id_session :: shell where
  "after_id_session = projr (run id_session init_shell)"

section \<open>Facts about the scanning loops\<close>

lemma first_slot_SomeD:
  "first_slot P js i = Some k \<Longrightarrow>
     i \<le> k \<and> k < MAXJOBS \<and> P (js ! k) \<and> (\<forall>m. i \<le> m \<and> m < k \<longrightarrow> \<not> P (js ! m))"
proof (induction P js i rule: first_slot.induct)
  case (1 P js i)
  show ?case
  proof (cases "i < MAXJOBS \<and> \<not> P (js ! i)")
    case True
    with "1.prems" have "first_slot P js (Suc i) = Some k"
      by (simp add: first_slot.simps [of P js i])
    with "1.IH" True have *: "Suc i \<le> k \<and> k < MAXJOBS \<and> P (js ! k) \<and>
        (\<forall>m. Suc i \<le> m \<and> m < k \<longrightarrow> \<not> P (js ! m))"
      by simp
    have "\<not> P (js ! m)" if "i \<le> m" "m < k" for m
      using that * True by (cases "m = i") auto
    with * show ?thesis by auto
  next
    case False
    with "1.prems" show ?thesis
      by (auto simp: first_slot.simps [of P js i] split: if_splits)
  qed
qed

lemma first_slot_NoneD:
  "first_slot P js i = None \<Longrightarrow> i \<le> m \<Longrightarrow> m < MAXJOBS \<Longrightarrow> \<not> P (js ! m)"
proof (induction P js i rule: first_slot.induct)
  case (1 P js i)
  from "1.prems" have i: "i < MAXJOBS" by simp
  with "1.prems"(1) have ni: "\<not> P (js ! i)" and rest: "first_slot P js (Suc i) = None"
    by (auto simp: first_slot.simps [of P js i] split: if_splits)
  show ?case
  proof (cases "m = i")
    case True
    with ni show ?thesis by simp
  next
    case False
    with "1.prems" have "Suc i \<le> m" by simp
    with "1.IH" i ni rest "1.prems"(3) show ?thesis by simp
  qed
qed

lemma first_slot_SomeI:
  "i \<le> k \<Longrightarrow> k < MAXJOBS \<Longrightarrow> P (js ! k) \<Longrightarrow> (\<forall>m. i \<le> m \<and> m < k \<longrightarrow> \<not> P (js ! m)) \<Longrightarrow>
     first_slot P js i = Some k"
proof (induction P js i rule: first_slot.induct)
  case (1 P js i)
  from "1.prems" have i: "i < MAXJOBS" by simp
  show ?case
  proof (cases "i = k")
    case True
    with "1.prems" i show ?thesis
      by (subst first_slot.simps) simp
  next
    case False
    with "1.prems" have ni: "\<not> P (js ! i)" and le: "Suc i \<le> k" by auto
    with "1.IH" i "1.prems" have "first_slot P js (Suc i) = Some k" by simp
    with i ni show ?thesis
      by (simp add: first_slot.simps [of P js i])
  qed
qed

lemma first_slot_NoneI:
  "(\<forall>m. i \<le> m \<and> m < MAXJOBS \<longrightarrow> \<not> P (js ! m)) \<Longrightarrow> first_slot P js i = None"
proof (induction P js i rule: first_slot.induct)
  case (1 P js i)
  show ?case
  proof (cases "i < MAXJOBS")
    case True
    with "1.prems" have ni: "\<not> P (js ! i)" by simp
    with "1.IH" True "1.prems" have "first_slot P js (Suc i) = None" by simp
    with True ni show ?thesis
      by (simp add: first_slot.simps [of P js i])
  next
    case False
    then show ?thesis
      by (simp add: first_slot.simps [of P js i])
  qed
qed

lemma first_slot_Some_iff:
  "first_slot P js 0 = Some k \<longleftrightarrow> k < MAXJOBS \<and> P (js ! k) \<and> (\<forall>m<k. \<not> P (js ! m))"
  using first_slot_SomeD [of P js 0 k] first_slot_SomeI [of 0 k P js] by auto

lemma first_slot_None_iff:
  "first_slot P js 0 = None \<longleftrightarrow> (\<forall>m<MAXJOBS. \<not> P (js ! m))"
  using first_slot_NoneD [of P js 0] first_slot_NoneI [of 0 P js] by auto

section \<open>Facts about the table operations\<close>

subsection \<open>The largest job ID\<close>

lemma maxjid_loop_ge_acc: "mx \<le> maxjid_loop js i mx"
proof (induction js i mx rule: maxjid_loop.induct)
  case (1 js i mx)
  show ?case
  proof (cases "i < MAXJOBS")
    case True
    with "1.IH" have "(if mx < jid (js ! i) then jid (js ! i) else mx)
        \<le> maxjid_loop js (Suc i) (if mx < jid (js ! i) then jid (js ! i) else mx)"
      by simp
    with True show ?thesis
      by (subst maxjid_loop.simps) (simp split: if_splits)
  next
    case False
    then show ?thesis by (subst maxjid_loop.simps) simp
  qed
qed

lemma maxjid_loop_ge: "i \<le> k \<Longrightarrow> k < MAXJOBS \<Longrightarrow> jid (js ! k) \<le> maxjid_loop js i mx"
proof (induction js i mx rule: maxjid_loop.induct)
  case (1 js i mx)
  from "1.prems" have i: "i < MAXJOBS" by simp
  let ?mx = "if mx < jid (js ! i) then jid (js ! i) else mx"
  have unfold: "maxjid_loop js i mx = maxjid_loop js (Suc i) ?mx"
    using i by (subst maxjid_loop.simps) simp
  show ?case
  proof (cases "k = i")
    case True
    have "jid (js ! i) \<le> ?mx" by simp
    also have "?mx \<le> maxjid_loop js (Suc i) ?mx" by (rule maxjid_loop_ge_acc)
    finally show ?thesis using True unfold by simp
  next
    case False
    with "1.prems" have "Suc i \<le> k" by simp
    with "1.IH" i "1.prems" have "jid (js ! k) \<le> maxjid_loop js (Suc i) ?mx" by simp
    with unfold show ?thesis by simp
  qed
qed

lemma maxjid_loop_mem:
  "maxjid_loop js i mx = mx \<or> (\<exists>k. i \<le> k \<and> k < MAXJOBS \<and> maxjid_loop js i mx = jid (js ! k))"
proof (induction js i mx rule: maxjid_loop.induct)
  case (1 js i mx)
  show ?case
  proof (cases "i < MAXJOBS")
    case True
    let ?mx = "if mx < jid (js ! i) then jid (js ! i) else mx"
    have unfold: "maxjid_loop js i mx = maxjid_loop js (Suc i) ?mx"
      using True by (subst maxjid_loop.simps) simp
    from "1.IH" True have "maxjid_loop js (Suc i) ?mx = ?mx \<or>
        (\<exists>k. Suc i \<le> k \<and> k < MAXJOBS \<and> maxjid_loop js (Suc i) ?mx = jid (js ! k))"
      by simp
    then show ?thesis
    proof
      assume "maxjid_loop js (Suc i) ?mx = ?mx"
      with unfold True show ?thesis by (cases "mx < jid (js ! i)") auto
    next
      assume "\<exists>k. Suc i \<le> k \<and> k < MAXJOBS \<and> maxjid_loop js (Suc i) ?mx = jid (js ! k)"
      then obtain k where "Suc i \<le> k" "k < MAXJOBS" "maxjid_loop js (Suc i) ?mx = jid (js ! k)"
        by blast
      with unfold have "i \<le> k \<and> k < MAXJOBS \<and> maxjid_loop js i mx = jid (js ! k)" by simp
      then show ?thesis by blast
    qed
  next
    case False
    then show ?thesis by (subst maxjid_loop.simps) simp
  qed
qed

lemma maxjid_ge: "k < MAXJOBS \<Longrightarrow> jid (js ! k) \<le> maxjid js"
  by (simp add: maxjid_def maxjid_loop_ge)

lemma maxjid_nonneg: "0 \<le> maxjid js"
  by (simp add: maxjid_def maxjid_loop_ge_acc)

lemma maxjid_mem: "maxjid js = 0 \<or> (\<exists>k<MAXJOBS. maxjid js = jid (js ! k))"
  using maxjid_loop_mem [of js 0 0] by (auto simp: maxjid_def)

lemma maxjid_Max:
  assumes "length js = MAXJOBS"
  shows "maxjid js = Max (insert 0 (jid ` set js))"
proof (rule sym, rule Max_eqI)
  show "finite (insert 0 (jid ` set js))" by simp
next
  fix y assume "y \<in> insert 0 (jid ` set js)"
  then show "y \<le> maxjid js"
    using assms maxjid_nonneg [of js] maxjid_ge [of _ js]
    by (auto simp: in_set_conv_nth)
next
  show "maxjid js \<in> insert 0 (jid ` set js)"
    using maxjid_mem [of js] assms nth_mem [of _ js] by auto
qed

subsection \<open>Well-formed tables\<close>

lemma wf_jobs_nth: "wf_jobs js \<Longrightarrow> k < MAXJOBS \<Longrightarrow> slot_ok (js ! k)"
  by (simp add: wf_jobs_def list_all_length)

lemma wf_jobs_length: "wf_jobs js \<Longrightarrow> length js = MAXJOBS"
  by (simp add: wf_jobs_def)

lemma wf_jobsI: "length js = MAXJOBS \<Longrightarrow> (\<And>k. k < MAXJOBS \<Longrightarrow> slot_ok (js ! k)) \<Longrightarrow> wf_jobs js"
  by (simp add: wf_jobs_def list_all_length)

lemma slot_ok_clearjob: "slot_ok (clearjob j)"
  by (simp add: slot_ok_def clearjob_def)

lemma wf_jobs_update: "wf_jobs js \<Longrightarrow> slot_ok j \<Longrightarrow> wf_jobs (js[i := j])"
proof (rule wf_jobsI)
  assume "wf_jobs js"
  then show "length (js[i := j]) = MAXJOBS" by (simp add: wf_jobs_length)
next
  fix k assume "wf_jobs js" "slot_ok j" "k < MAXJOBS"
  then show "slot_ok (js[i := j] ! k)"
    using wf_jobs_nth [of js k] wf_jobs_length [of js] by (cases "k = i") simp_all
qed

lemma maxjid_live:
  assumes "wf_jobs js"
  shows "maxjid js = Max (insert 0 (jid ` {j \<in> set js. pid j \<noteq> 0}))"
proof -
  have "insert 0 (jid ` set js) = insert 0 (jid ` {j \<in> set js. pid j \<noteq> 0})"
  proof -
    have "jid j = 0" if "j \<in> set js" "pid j = 0" for j
      using that assms by (auto simp: wf_jobs_def list_all_iff slot_ok_def)
    then show ?thesis by force
  qed
  with maxjid_Max [OF wf_jobs_length [OF assms]] show ?thesis by simp
qed

subsection \<open>What the operations return\<close>

lemma deletejob_found:
  assumes "getjobpid (jobs s) p = Some i"
  shows "deletejob s p =
    (1, s\<lparr>jobs := (jobs s)[i := clearjob (jobs s ! i)],
          nextjid := maxjid ((jobs s)[i := clearjob (jobs s ! i)]) + 1\<rparr>)"
  using assms by (auto simp: getjobpid_def deletejob_def Let_def split: if_splits)

lemma deletejob_not_found:
  assumes "getjobpid (jobs s) p = None"
  shows "deletejob s p = (0, s)"
  using assms by (auto simp: getjobpid_def deletejob_def Let_def split: if_splits)


lemma job_upd_all [simp]:
  "(j :: job_t)\<lparr>pid := p, state := st, jid := n, cmdline := c\<rparr> = \<lparr>pid = p, jid = n, state = st, cmdline = c\<rparr>"
  by (cases j) simp

lemma addjob_cases:
  "addjob s p st cmd = (r, s') \<Longrightarrow>
   (r = 0 \<longleftrightarrow> p < 1 \<or> (\<forall>i<MAXJOBS. pid (jobs s ! i) \<noteq> 0)) \<and>
   (r = 0 \<longrightarrow> jobs s' = jobs s \<and> nextjid s' = nextjid s) \<and>
   (r \<noteq> 0 \<longrightarrow> r = 1 \<and> (\<exists>i<MAXJOBS. pid (jobs s ! i) = 0 \<and> (\<forall>m<i. pid (jobs s ! m) \<noteq> 0) \<and>
       jobs s' = (jobs s)[i := \<lparr>pid = p, jid = nextjid s, state = st, cmdline = cmd\<rparr>]))"
proof (cases "p < 1")
  case True
  assume "addjob s p st cmd = (r, s')"
  with True show ?thesis by (simp add: addjob_def)
next
  case False
  assume a: "addjob s p st cmd = (r, s')"
  show ?thesis
  proof (cases "first_slot (\<lambda>j. pid j = 0) (jobs s) 0")
    case None
    with a False have "r = 0" "s' = emit (Printf ''Tried to create too many jobs\<newline>'' []) s"
      by (auto simp: addjob_def)
    moreover from None have "\<forall>i<MAXJOBS. pid (jobs s ! i) \<noteq> 0"
      by (simp add: first_slot_None_iff)
    ultimately show ?thesis by (simp add: emit_def)
  next
    case (Some i)
    then have i: "i < MAXJOBS" "pid (jobs s ! i) = 0" "\<forall>m<i. pid (jobs s ! m) \<noteq> 0"
      by (simp_all add: first_slot_Some_iff)
    from a False Some have r: "r = 1"
      and js: "jobs s' = (jobs s)[i := \<lparr>pid = p, jid = nextjid s, state = st, cmdline = cmd\<rparr>]"
      by (auto simp: addjob_def Let_def emit_def split: if_splits)
    from i r js False show ?thesis by auto
  qed
qed

subsection \<open>Looking up a job\<close>

lemma first_slot_cong:
  "(\<And>k. k < MAXJOBS \<Longrightarrow> P (js' ! k) = P (js ! k)) \<Longrightarrow> first_slot P js' i = first_slot P js i"
proof (induction P js i rule: first_slot.induct)
  case (1 P js i)
  show ?case
  proof (cases "i < MAXJOBS")
    case True
    with "1.prems" have eq: "P (js' ! i) = P (js ! i)" by simp
    show ?thesis
    proof (cases "P (js ! i)")
      case True
      with \<open>i < MAXJOBS\<close> eq show ?thesis
        by (simp add: first_slot.simps [of P js i] first_slot.simps [of P js' i])
    next
      case False
      with "1.IH" \<open>i < MAXJOBS\<close> "1.prems" have "first_slot P js' (Suc i) = first_slot P js (Suc i)"
        by simp
      with False \<open>i < MAXJOBS\<close> eq show ?thesis
        by (simp add: first_slot.simps [of P js i] first_slot.simps [of P js' i])
    qed
  next
    case False
    then show ?thesis
      by (simp add: first_slot.simps [of P js i] first_slot.simps [of P js' i])
  qed
qed

lemma getjobpid_SomeD:
  "getjobpid js p = Some i \<Longrightarrow> 1 \<le> p \<and> i < MAXJOBS \<and> pid (js ! i) = p \<and> (\<forall>m<i. pid (js ! m) \<noteq> p)"
  by (auto simp: getjobpid_def first_slot_Some_iff split: if_splits)

lemma getjobpid_None_iff:
  "getjobpid js p = None \<longleftrightarrow> p < 1 \<or> (\<forall>m<MAXJOBS. pid (js ! m) \<noteq> p)"
  by (auto simp: getjobpid_def first_slot_None_iff)

lemma getjobjid_SomeD:
  "getjobjid js n = Some i \<Longrightarrow> 1 \<le> n \<and> i < MAXJOBS \<and> jid (js ! i) = n \<and> (\<forall>m<i. jid (js ! m) \<noteq> n)"
  by (auto simp: getjobjid_def first_slot_Some_iff split: if_splits)

lemma pid2jid_found: "getjobpid (jobs s) p = Some i \<Longrightarrow> pid2jid s p = jid (jobs s ! i)"
  by (auto simp: getjobpid_def pid2jid_def split: if_splits)

lemma pid2jid_not_found: "getjobpid (jobs s) p = None \<Longrightarrow> pid2jid s p = 0"
  by (auto simp: getjobpid_def pid2jid_def split: if_splits)

lemma getjobpid_same_pids:
  "(\<And>k. k < MAXJOBS \<Longrightarrow> pid (js' ! k) = pid (js ! k)) \<Longrightarrow> getjobpid js' p = getjobpid js p"
  unfolding getjobpid_def using first_slot_cong [of "\<lambda>j. pid j = p" js' js 0] by simp

lemma getjobpid_set_state:
  "getjobpid (js[i := (js ! i)\<lparr>state := st\<rparr>]) p = getjobpid js p"
proof (rule getjobpid_same_pids)
  fix k show "pid (js[i := (js ! i)\<lparr>state := st\<rparr>] ! k) = pid (js ! k)"
    by (cases "i < length js"; cases "k = i") (simp_all add: list_update_beyond)
qed

subsection \<open>Distinct pids\<close>

lemma distinct_filter_nth:
  "distinct (filter P xs) \<Longrightarrow> a < length xs \<Longrightarrow> b < length xs \<Longrightarrow> xs ! a = xs ! b \<Longrightarrow> P (xs ! a) \<Longrightarrow> a = b"
proof (induction xs arbitrary: a b)
  case Nil
  then show ?case by simp
next
  case (Cons x xs)
  show ?case
  proof (cases a)
    case 0
    show ?thesis
    proof (cases b)
      case 0
      with \<open>a = 0\<close> show ?thesis by simp
    next
      case (Suc b')
      with Cons.prems \<open>a = 0\<close> have "x = xs ! b'" "b' < length xs" "P x" by simp_all
      then have "x \<in> set (filter P xs)" by auto
      with Cons.prems(1) \<open>P x\<close> show ?thesis by simp
    qed
  next
    case (Suc a')
    show ?thesis
    proof (cases b)
      case 0
      with Cons.prems Suc have "x = xs ! a'" "a' < length xs" "P x" by simp_all
      then have "x \<in> set (filter P xs)" by auto
      with Cons.prems(1) \<open>P x\<close> show ?thesis by simp
    next
      case (Suc b')
      with Cons.prems \<open>a = Suc a'\<close> have "a' = b'"
        by (intro Cons.IH) (auto split: if_splits)
      with Suc \<open>a = Suc a'\<close> show ?thesis by simp
    qed
  qed
qed

lemma distinct_filter_nthI:
  "(\<And>a b. a < length xs \<Longrightarrow> b < length xs \<Longrightarrow> xs ! a = xs ! b \<Longrightarrow> P (xs ! a) \<Longrightarrow> a = b) \<Longrightarrow>
     distinct (filter P xs)"
proof (induction xs)
  case Nil
  then show ?case by simp
next
  case (Cons x xs)
  have "distinct (filter P xs)"
  proof (rule Cons.IH)
    fix a b assume "a < length xs" "b < length xs" "xs ! a = xs ! b" "P (xs ! a)"
    with Cons.prems [of "Suc a" "Suc b"] show "a = b" by simp
  qed
  moreover have "x \<notin> set xs" if "P x"
  proof
    assume "x \<in> set xs"
    then obtain k where "k < length xs" "xs ! k = x" by (auto simp: in_set_conv_nth)
    with Cons.prems [of 0 "Suc k"] that show False by simp
  qed
  ultimately show ?case by auto
qed

lemma distinct_pidsD:
  assumes "distinct_pids js" "a < length js" "b < length js" "pid (js ! a) = pid (js ! b)" "pid (js ! a) \<noteq> 0"
  shows "a = b"
  using distinct_filter_nth [of "\<lambda>p. p \<noteq> 0" "map pid js" a b] assms
  by (simp add: distinct_pids_def)

lemma distinct_pidsI:
  assumes "\<And>a b. a < length js \<Longrightarrow> b < length js \<Longrightarrow> pid (js ! a) = pid (js ! b) \<Longrightarrow> pid (js ! a) \<noteq> 0 \<Longrightarrow> a = b"
  shows "distinct_pids js"
  unfolding distinct_pids_def
  by (rule distinct_filter_nthI) (use assms in auto)

lemma distinct_pids_set_state:
  "distinct_pids js \<Longrightarrow> distinct_pids (js[i := (js ! i)\<lparr>state := st\<rparr>])"
proof -
  have "map pid (js[i := (js ! i)\<lparr>state := st\<rparr>]) = map pid js"
    by (cases "i < length js") (simp_all add: map_update list_update_same_conv list_update_beyond)
  then show "distinct_pids js \<Longrightarrow> distinct_pids (js[i := (js ! i)\<lparr>state := st\<rparr>])"
    by (simp add: distinct_pids_def)
qed

lemma distinct_pids_clear:
  assumes "distinct_pids js"
  shows "distinct_pids (js[i := clearjob (js ! i)])"
proof (rule distinct_pidsI)
  fix a b
  let ?js = "js[i := clearjob (js ! i)]"
  assume a: "a < length ?js" and b: "b < length ?js"
    and eq: "pid (?js ! a) = pid (?js ! b)" and nz: "pid (?js ! a) \<noteq> 0"
  from nz a have "a \<noteq> i" by (auto simp: clearjob_def)
  moreover from nz eq b have "b \<noteq> i" by (auto simp: clearjob_def)
  ultimately show "a = b"
    using a b eq nz distinct_pidsD [OF assms, of a b] by simp
qed

lemma getjobpid_cleared:
  assumes "distinct_pids js" "length js = MAXJOBS" "getjobpid js p = Some i"
  shows "getjobpid (js[i := clearjob (js ! i)]) p = None"
proof -
  from getjobpid_SomeD [OF assms(3)] have p: "1 \<le> p" "i < MAXJOBS" "pid (js ! i) = p" by simp_all
  have "pid (js[i := clearjob (js ! i)] ! m) \<noteq> p" if "m < MAXJOBS" for m
  proof (cases "m = i")
    case True
    with p assms(2) show ?thesis by (simp add: clearjob_def)
  next
    case False
    with distinct_pidsD [OF assms(1), of m i] that p assms(2) show ?thesis by auto
  qed
  then show ?thesis by (simp add: getjobpid_None_iff)
qed

lemma getjobpid_clear_other:
  assumes "distinct_pids js" "length js = MAXJOBS" "getjobpid js q = Some k" "getjobpid js p = Some i" "p \<noteq> q"
  shows "getjobpid (js[k := clearjob (js ! k)]) p = Some i"
proof -
  from getjobpid_SomeD [OF assms(3)] have q: "1 \<le> q" "k < MAXJOBS" "pid (js ! k) = q" by simp_all
  from getjobpid_SomeD [OF assms(4)] have p: "1 \<le> p" "i < MAXJOBS" "pid (js ! i) = p"
    "\<forall>m<i. pid (js ! m) \<noteq> p" by simp_all
  from p q assms(5) have ik: "i \<noteq> k" by auto
  let ?js = "js[k := clearjob (js ! k)]"
  have "pid (?js ! i) = p" using ik p by simp
  moreover have "pid (?js ! m) \<noteq> p" if "m < i" for m
    using that p assms(2) by (cases "m = k") (auto simp: clearjob_def)
  ultimately show ?thesis
    using p by (simp add: getjobpid_def first_slot_Some_iff)
qed

subsection \<open>The foreground job\<close>

lemma fg_count_0_iff: "fg_count js = 0 \<longleftrightarrow> (\<forall>k<length js. state (js ! k) \<noteq> FG)"
  by (auto simp: fg_count_def filter_empty_conv in_set_conv_nth) (metis nth_mem)

lemma fgpid_none: "first_slot (\<lambda>j. state j = FG) js 0 = None \<Longrightarrow> fgpid js = 0"
  by (simp add: fgpid_def)

lemma forward_noop:
  assumes "wf_jobs (jobs s)" "fg_count (jobs s) = 0"
  shows "getjobpid (jobs s) (fgpid (jobs s)) = None"
proof -
  from assms have "\<forall>k<MAXJOBS. state (jobs s ! k) \<noteq> FG"
    by (simp add: fg_count_0_iff wf_jobs_length)
  then have "first_slot (\<lambda>j. state j = FG) (jobs s) 0 = None"
    by (simp add: first_slot_None_iff)
  then have "fgpid (jobs s) = 0" by (rule fgpid_none)
  then show ?thesis by (simp add: getjobpid_def)
qed

lemma forward_target:
  assumes "wf_jobs (jobs s)" "fg_count (jobs s) \<noteq> 0"
  shows "\<exists>i<MAXJOBS. state (jobs s ! i) = FG \<and> (\<forall>m<i. state (jobs s ! m) \<noteq> FG) \<and>
     fgpid (jobs s) = pid (jobs s ! i) \<and> getjobpid (jobs s) (fgpid (jobs s)) \<noteq> None"
proof -
  from assms obtain k where "k < MAXJOBS" "state (jobs s ! k) = FG"
    by (auto simp: fg_count_0_iff wf_jobs_length)
  then have "first_slot (\<lambda>j. state j = FG) (jobs s) 0 \<noteq> None"
    by (auto simp: first_slot_None_iff)
  then obtain i where i: "first_slot (\<lambda>j. state j = FG) (jobs s) 0 = Some i" by auto
  then have *: "i < MAXJOBS" "state (jobs s ! i) = FG" "\<forall>m<i. state (jobs s ! m) \<noteq> FG"
    by (simp_all add: first_slot_Some_iff)
  from i have fp: "fgpid (jobs s) = pid (jobs s ! i)" by (simp add: fgpid_def)
  from wf_jobs_nth [OF assms(1) *(1)] *(2) have "1 \<le> pid (jobs s ! i)"
    by (auto simp: slot_ok_def FG_def UNDEF_def)
  with *(1) fp have "getjobpid (jobs s) (fgpid (jobs s)) \<noteq> None"
    by (auto simp: getjobpid_None_iff)
  with * fp show ?thesis by blast
qed

text \<open>The stopped branch crashes exactly when the reaped pid has no job.\<close>

lemma reap_stopped_crashes_iff:
  "reap p (Stopped n) s = Inl NullDeref \<longleftrightarrow> getjobpid (jobs s) p = None"
  by (simp add: Let_def split: option.splits)

subsection \<open>Resolving the argument of bg and fg\<close>

lemma isdigit_not_percent: "isdigit c \<Longrightarrow> c \<noteq> CHR ''%''"
  by (auto simp: isdigit_def)

lemma pid2jid_set_state:
  "pid2jid (s\<lparr>jobs := (jobs s)[i := (jobs s ! i)\<lparr>state := st\<rparr>]\<rparr>) p = pid2jid s p"
proof (cases "getjobpid (jobs s) p")
  case None
  then have "getjobpid ((jobs s)[i := (jobs s ! i)\<lparr>state := st\<rparr>]) p = None"
    by (simp add: getjobpid_set_state)
  with None show ?thesis by (simp add: pid2jid_not_found)
next
  case (Some k)
  then have "getjobpid ((jobs s)[i := (jobs s ! i)\<lparr>state := st\<rparr>]) p = Some k"
    by (simp add: getjobpid_set_state)
  moreover have "jid ((jobs s)[i := (jobs s ! i)\<lparr>state := st\<rparr>] ! k) = jid (jobs s ! k)"
    by (cases "i < length (jobs s)"; cases "k = i") (simp_all add: list_update_beyond)
  ultimately show ?thesis using Some by (simp add: pid2jid_found)
qed

lemma getjobjid_pid:
  assumes "wf_jobs js" "distinct_pids js" "getjobjid js n = Some i"
  shows "getjobpid js (pid (js ! i)) = Some i"
proof -
  from getjobjid_SomeD [OF assms(3)] have i: "i < MAXJOBS" "1 \<le> jid (js ! i)" by simp_all
  with wf_jobs_nth [OF assms(1), of i] have p: "1 \<le> pid (js ! i)"
    by (auto simp: slot_ok_def)
  have "pid (js ! m) \<noteq> pid (js ! i)" if "m < i" for m
    using distinct_pidsD [OF assms(2), of m i] that i p wf_jobs_length [OF assms(1)] by auto
  with i p show ?thesis by (simp add: getjobpid_def first_slot_Some_iff)
qed

lemma bgfg_switch_bg:
  assumes "getjobpid (jobs s) p = Some i" "length (jobs s) = MAXJOBS"
  shows "bgfg_switch ''bg'' i p s =
    (s\<lparr>jobs := (jobs s)[i := (jobs s ! i)\<lparr>state := BG\<rparr>],
       trace := trace s @
         [Printf ''[%d] (%d) %s'' [Num (jid (jobs s ! i)), Num p, Str (cmdline (jobs s ! i))],
          Kill (- p) SIGCONT]\<rparr>, None)"
proof -
  from getjobpid_SomeD [OF assms(1)] have i: "i < MAXJOBS" by simp
  have "pid2jid (s\<lparr>jobs := (jobs s)[i := (jobs s ! i)\<lparr>state := BG\<rparr>]\<rparr>) p = jid (jobs s ! i)"
    using assms(1) by (simp add: pid2jid_set_state pid2jid_found)
  with i assms(2) show ?thesis
    by (simp add: bgfg_switch_def Let_def emit_def)
qed

lemma bgfg_switch_fg:
  "bgfg_switch ''fg'' i p s =
    (s\<lparr>jobs := (jobs s)[i := (jobs s ! i)\<lparr>state := FG\<rparr>],
       trace := trace s @ [Kill (- p) SIGCONT]\<rparr>, Some p)"
  by (simp add: bgfg_switch_def Let_def emit_def)

lemma bgfg_step_resolved:
  assumes "wf_jobs (jobs s)" and "distinct_pids (jobs s)"
    and "(\<exists>cs. a1 = CHR ''%'' # cs \<and> getjobjid (jobs s) (atoi cs) = Some i) \<or>
         (\<exists>c cs. a1 = c # cs \<and> isdigit c \<and> getjobpid (jobs s) (atoi a1) = Some i)"
  shows "getjobpid (jobs s) (pid (jobs s ! i)) = Some i \<and>
         bgfg_step cmd (a1 # args) s = bgfg_switch cmd i (pid (jobs s ! i)) s"
  using assms(3)
proof (elim disjE exE conjE)
  fix cs assume "a1 = CHR ''%'' # cs" "getjobjid (jobs s) (atoi cs) = Some i"
  then show ?thesis
    using getjobjid_pid [OF assms(1,2)] by (simp add: bgfg_step_def)
next
  fix c cs assume a: "a1 = c # cs" "isdigit c" "getjobpid (jobs s) (atoi a1) = Some i"
  from getjobpid_SomeD [OF a(3)] have "pid (jobs s ! i) = atoi a1" by simp
  with a isdigit_not_percent [OF a(2)] show ?thesis
    by (simp add: bgfg_step_def)
qed

subsection \<open>Counting the slots in state FG\<close>

lemma fg_count_update_le:
  "fg_count (js[i := j]) \<le> fg_count js + (if state j = FG then 1 else 0)"
proof (induction js arbitrary: i)
  case Nil
  then show ?case by (simp add: fg_count_def)
next
  case (Cons x xs)
  show ?case
  proof (cases i)
    case 0
    then show ?thesis by (simp add: fg_count_def)
  next
    case (Suc i')
    with Cons.IH [of i'] show ?thesis by (auto simp: fg_count_def split: if_splits)
  qed
qed

lemma fg_count_update_not_fg: "state j \<noteq> FG \<Longrightarrow> fg_count (js[i := j]) \<le> fg_count js"
  using fg_count_update_le [of js i j] by simp

lemma fg_count_deletejob: "fg_count (jobs (snd (deletejob s p))) \<le> fg_count (jobs s)"
proof (cases "getjobpid (jobs s) p")
  case None
  then show ?thesis by (simp add: deletejob_not_found)
next
  case (Some i)
  have "state (clearjob (jobs s ! i)) \<noteq> FG" by (simp add: clearjob_def UNDEF_def FG_def)
  then show ?thesis
    by (simp add: deletejob_found [OF Some] fg_count_update_not_fg)
qed

lemma jobs_emit [simp]: "jobs (emit e s) = jobs s"
  by (simp add: emit_def)

lemma nextjid_emit [simp]: "nextjid (emit e s) = nextjid s"
  by (simp add: emit_def)


lemma fg_count_bgfg_switch:
  "fg_count (jobs (fst (bgfg_switch cmd i p s))) \<le> fg_count (jobs s) + (if cmd = ''fg'' then 1 else 0)"
proof -
  have "fg_count ((jobs s)[i := (jobs s ! i)\<lparr>state := BG\<rparr>]) \<le> fg_count (jobs s)"
    by (rule fg_count_update_not_fg) (simp add: BG_def FG_def)
  moreover have "fg_count ((jobs s)[i := (jobs s ! i)\<lparr>state := FG\<rparr>]) \<le> fg_count (jobs s) + 1"
    using fg_count_update_le [of "jobs s" i "(jobs s ! i)\<lparr>state := FG\<rparr>"] by simp
  ultimately show ?thesis
    by (simp add: bgfg_switch_def Let_def)
qed

lemma fg_count_bgfg_step:
  "fg_count (jobs (fst (bgfg_step cmd rest s))) \<le> fg_count (jobs s) + (if cmd = ''fg'' then 1 else 0)"
  using fg_count_bgfg_switch [of cmd _ _ s]
  by (auto simp: bgfg_step_def split: list.splits option.splits)

lemma fg_count_reap: "reap p w s = Inr s' \<Longrightarrow> fg_count (jobs s') \<le> fg_count (jobs s)"
proof (cases w)
  case (Exited c)
  assume "reap p w s = Inr s'"
  with Exited fg_count_deletejob [of s p] show ?thesis by auto
next
  case (Signaled n)
  assume "reap p w s = Inr s'"
  with Signaled fg_count_deletejob [of "emit (Printf ''Job [%d] (%d) terminated by signal %d\<newline>'' [Num (pid2jid s p), Num p, Num n]) s" p]
  show ?thesis by auto
next
  case (Stopped n)
  assume "reap p w s = Inr s'"
  with Stopped obtain i where "jobs s' = (jobs s)[i := (jobs s ! i)\<lparr>state := ST\<rparr>]"
    by (auto simp: Let_def split: option.splits)
  moreover have "fg_count ((jobs s)[i := (jobs s ! i)\<lparr>state := ST\<rparr>]) \<le> fg_count (jobs s)"
    by (rule fg_count_update_not_fg) (simp add: ST_def FG_def)
  ultimately show ?thesis by simp
next
  case Continued
  assume "reap p w s = Inr s'"
  with Continued show ?thesis by simp
qed

subsection \<open>The counter and the job IDs\<close>

lemma addjob_nextjid:
  "fst (addjob s p st cmd) \<noteq> 0 \<Longrightarrow>
     nextjid (snd (addjob s p st cmd)) = (if nextjid s + 1 > int MAXJOBS then 1 else nextjid s + 1)"
  by (auto simp: addjob_def Let_def emit_def split: if_splits option.splits)

lemma maxjid_update_above:
  assumes "length js = MAXJOBS" "i < MAXJOBS" "maxjid js < jid j"
  shows "maxjid (js[i := j]) = jid j"
proof -
  from maxjid_ge [of i "js[i := j]"] assms have ge: "jid j \<le> maxjid (js[i := j])" by simp
  have "jid (js[i := j] ! k) \<le> jid j" if "k < MAXJOBS" for k
    using maxjid_ge [of k js] that assms by (cases "k = i") simp_all
  moreover from maxjid_nonneg [of js] assms(3) have "0 \<le> jid j" by simp
  ultimately have "maxjid (js[i := j]) \<le> jid j"
    using maxjid_mem [of "js[i := j]"] by auto
  with ge show ?thesis by simp
qed

lemma distinct_jidsD:
  assumes "distinct_jids js" "a < length js" "b < length js" "jid (js ! a) = jid (js ! b)" "jid (js ! a) \<noteq> 0"
  shows "a = b"
  using distinct_filter_nth [of "\<lambda>n. n \<noteq> 0" "map jid js" a b] assms
  by (simp add: distinct_jids_def)

lemma distinct_jidsI:
  assumes "\<And>a b. a < length js \<Longrightarrow> b < length js \<Longrightarrow> jid (js ! a) = jid (js ! b) \<Longrightarrow> jid (js ! a) \<noteq> 0 \<Longrightarrow> a = b"
  shows "distinct_jids js"
  unfolding distinct_jids_def
  by (rule distinct_filter_nthI) (use assms in auto)

lemma distinct_jids_update_above:
  assumes "distinct_jids js" "length js = MAXJOBS" "maxjid js < jid j"
  shows "distinct_jids (js[i := j])"
proof (rule distinct_jidsI)
  fix a b
  let ?js = "js[i := j]"
  assume a: "a < length ?js" and b: "b < length ?js"
    and eq: "jid (?js ! a) = jid (?js ! b)" and nz: "jid (?js ! a) \<noteq> 0"
  have lt: "jid (js ! k) < jid j" if "k < length js" for k
    using maxjid_ge [of k js] that assms(2,3) by simp
  show "a = b"
  proof (cases "a = i")
    case True
    with a b eq lt [of b] show ?thesis by (cases "b = i") auto
  next
    case False
    show ?thesis
    proof (cases "b = i")
      case True
      with False a b eq lt [of a] show ?thesis by auto
    next
      case bi: False
      with False a b eq nz distinct_jidsD [OF assms(1), of a b] show ?thesis by simp
    qed
  qed
qed

lemma addjob_above:
  assumes "wf_jobs (jobs s)" "maxjid (jobs s) < nextjid s" "fst (addjob s p st cmd) \<noteq> 0"
  shows "(\<exists>i<MAXJOBS. pid (jobs s ! i) = 0 \<and>
            jobs (snd (addjob s p st cmd)) =
              (jobs s)[i := \<lparr>pid = p, jid = nextjid s, state = st, cmdline = cmd\<rparr>]) \<and>
         (\<forall>k<MAXJOBS. jid (jobs s ! k) < nextjid s) \<and>
         (distinct_jids (jobs s) \<longrightarrow> distinct_jids (jobs (snd (addjob s p st cmd)))) \<and>
         (nextjid s < int MAXJOBS \<longrightarrow>
            nextjid (snd (addjob s p st cmd)) = nextjid s + 1 \<and>
            maxjid (jobs (snd (addjob s p st cmd))) < nextjid (snd (addjob s p st cmd))) \<and>
         (int MAXJOBS \<le> nextjid s \<longrightarrow> nextjid (snd (addjob s p st cmd)) = 1)"
proof -
  let ?j = "\<lparr>pid = p, jid = nextjid s, state = st, cmdline = cmd\<rparr>"
  from addjob_cases [OF surjective_pairing, of s p st cmd] assms(3)
  obtain i where i: "i < MAXJOBS" "pid (jobs s ! i) = 0"
    "jobs (snd (addjob s p st cmd)) = (jobs s)[i := ?j]"
    by auto
  have len: "length (jobs s) = MAXJOBS" using assms(1) by (rule wf_jobs_length)
  have below: "\<forall>k<MAXJOBS. jid (jobs s ! k) < nextjid s"
    using maxjid_ge [of _ "jobs s"] assms(2) by fastforce
  have mx: "maxjid ((jobs s)[i := ?j]) = nextjid s"
    using maxjid_update_above [OF len i(1), of ?j] assms(2) by simp
  have dj: "distinct_jids (jobs s) \<longrightarrow> distinct_jids ((jobs s)[i := ?j])"
    using distinct_jids_update_above [OF _ len, of ?j i] assms(2) by simp
  from i below mx dj addjob_nextjid [OF assms(3)] show ?thesis
    by auto
qed

lemma deletejob_above:
  "getjobpid (jobs s) q = Some k \<Longrightarrow>
     maxjid (jobs (snd (deletejob s q))) < nextjid (snd (deletejob s q))"
  by (simp add: deletejob_found)

subsection \<open>The slot that waitfg watches\<close>

lemma follows_fg_job: "follows p i s \<Longrightarrow> fg_job (jobs s) p \<longleftrightarrow> state (jobs s ! i) = FG"
  by (auto simp: follows_def fg_job_def)

lemma wf_jobs_clear: "wf_jobs js \<Longrightarrow> wf_jobs (js[i := clearjob (js ! i)])"
  by (rule wf_jobs_update) (simp_all add: slot_ok_clearjob)

lemma wf_jobs_set_state:
  assumes "wf_jobs js" "getjobpid js p = Some i"
  shows "wf_jobs (js[i := (js ! i)\<lparr>state := st\<rparr>])"
proof (rule wf_jobs_update [OF assms(1)])
  from getjobpid_SomeD [OF assms(2)] have "i < MAXJOBS" "1 \<le> pid (js ! i)" by simp_all
  with wf_jobs_nth [OF assms(1), of i] show "slot_ok ((js ! i)\<lparr>state := st\<rparr>)"
    by (auto simp: slot_ok_def)
qed

lemma getjobpid_clear_None:
  assumes "getjobpid js p = None"
  shows "getjobpid (js[k := clearjob (js ! k)]) p = None"
proof (cases "p < 1")
  case True
  then show ?thesis by (simp add: getjobpid_def)
next
  case False
  with assms have *: "\<forall>m<MAXJOBS. pid (js ! m) \<noteq> p" by (simp add: getjobpid_None_iff)
  have "pid (js[k := clearjob (js ! k)] ! m) \<noteq> p" if "m < MAXJOBS" for m
  proof (cases "k < length js \<and> m = k")
    case True
    with False show ?thesis by (simp add: clearjob_def)
  next
    case False
    with * that show ?thesis by (cases "k < length js") (auto simp: list_update_beyond)
  qed
  then show ?thesis by (simp add: getjobpid_None_iff)
qed

lemma follows_deletejob:
  assumes "follows p i s"
  shows "follows p i (snd (deletejob s q))"
proof (cases "getjobpid (jobs s) q")
  case None
  with assms show ?thesis by (simp add: deletejob_not_found)
next
  case (Some k)
  let ?js = "(jobs s)[k := clearjob (jobs s ! k)]"
  from assms have wf: "wf_jobs (jobs s)" and dp: "distinct_pids (jobs s)"
    by (simp_all add: follows_def)
  have len: "length (jobs s) = MAXJOBS" using wf by (rule wf_jobs_length)
  from getjobpid_SomeD [OF Some] have k: "k < MAXJOBS" "pid (jobs s ! k) = q" by simp_all
  have "getjobpid ?js p = Some i \<or> (getjobpid ?js p = None \<and> state (?js ! i) \<noteq> FG)"
  proof (cases "getjobpid (jobs s) p")
    case None
    with assms have "state (jobs s ! i) \<noteq> FG" by (simp add: follows_def)
    then have "state (?js ! i) \<noteq> FG"
      using len k by (cases "i = k") (simp_all add: clearjob_def UNDEF_def FG_def)
    with getjobpid_clear_None [OF None] show ?thesis by simp
  next
    case (Some i')
    with assms have pi: "getjobpid (jobs s) p = Some i" by (simp add: follows_def)
    show ?thesis
    proof (cases "p = q")
      case True
      with pi \<open>getjobpid (jobs s) q = Some k\<close> have "k = i" by simp
      with getjobpid_cleared [OF dp len pi] len k show ?thesis
        by (simp add: clearjob_def UNDEF_def FG_def)
    next
      case False
      with getjobpid_clear_other [OF dp len \<open>getjobpid (jobs s) q = Some k\<close> pi] show ?thesis
        by simp
    qed
  qed
  with wf dp show ?thesis
    by (simp add: follows_def deletejob_found [OF Some] wf_jobs_clear distinct_pids_clear)
qed

lemma follows_trace [simp]: "follows p i (s\<lparr>trace := t\<rparr>) = follows p i s"
  by (simp add: follows_def)

lemma follows_emit [simp]: "follows p i (emit e s) = follows p i s"
  by (simp add: emit_def)

lemma follows_reap:
  assumes "follows p i s" "reap q w s = Inr s1"
  shows "follows p i s1"
proof (cases w)
  case (Exited c)
  with assms(2) have "s1 = snd (deletejob s q)" by simp
  with follows_deletejob [OF assms(1)] show ?thesis by simp
next
  case (Signaled n)
  with assms(2) follows_deletejob [of p i "emit (Printf ''Job [%d] (%d) terminated by signal %d\<newline>'' [Num (pid2jid s q), Num q, Num n]) s" q]
    assms(1)
  show ?thesis by auto
next
  case (Stopped n)
  with assms(2) obtain k where k: "getjobpid (jobs s) q = Some k"
    and s1: "jobs s1 = (jobs s)[k := (jobs s ! k)\<lparr>state := ST\<rparr>]"
    by (auto simp: Let_def split: option.splits)
  from assms(1) have wf: "wf_jobs (jobs s)" and dp: "distinct_pids (jobs s)"
    by (simp_all add: follows_def)
  have "state (jobs s1 ! i) = FG \<Longrightarrow> state (jobs s ! i) = FG"
    unfolding s1
    by (cases "k < length (jobs s)"; cases "i = k") (simp_all add: list_update_beyond ST_def FG_def)
  with assms(1) show ?thesis
    unfolding follows_def s1
    by (auto simp: getjobpid_set_state wf_jobs_set_state [OF wf k] distinct_pids_set_state [OF dp])
next
  case Continued
  with assms show ?thesis by simp
qed

lemma follows_sigchld_handler:
  "follows p i s \<Longrightarrow> sigchld_handler ws s = Inr s1 \<Longrightarrow> follows p i s1"
proof (induction ws arbitrary: s)
  case Nil
  then show ?case by simp
next
  case (Cons a ws)
  obtain q w where a: "a = (q, w)" by (cases a)
  show ?case
  proof (cases "q > 0")
    case True
    with Cons.prems(2) a obtain s2 where s2: "reap q w s = Inr s2" "sigchld_handler ws s2 = Inr s1"
      by (auto split: sum.splits)
    from follows_reap [OF Cons.prems(1) s2(1)] s2(2) show ?thesis by (rule Cons.IH)
  next
    case False
    with Cons.prems a show ?thesis by simp
  qed
qed

lemma follows_handle: "follows p i s \<Longrightarrow> handle e s = Inr s1 \<Longrightarrow> follows p i s1"
  by (cases e)
     (auto simp: sigint_handler_def sigtstp_handler_def Let_def
           intro: follows_sigchld_handler split: if_splits)

lemma follows_handle_all: "follows p i s \<Longrightarrow> handle_all es s = Inr s1 \<Longrightarrow> follows p i s1"
proof (induction es arbitrary: s)
  case Nil
  then show ?case by simp
next
  case (Cons e es)
  from Cons.prems(2) obtain s2 where s2: "handle e s = Inr s2" "handle_all es s2 = Inr s1"
    by (auto split: sum.splits)
  from follows_handle [OF Cons.prems(1) s2(1)] s2(2) show ?case by (rule Cons.IH)
qed

lemma waitfg_loop_not_fg: "state (jobs s ! i) \<noteq> FG \<Longrightarrow> waitfg_loop i env s = Some (Inr s)"
  by (cases env) simp_all

lemma waitfg_loop_returns:
  assumes "follows p i s"
  shows "waitfg_loop i env s = Some (Inr s') \<longleftrightarrow>
    (\<exists>k\<le>length env. handle_rounds (take k env) s = Inr s' \<and> \<not> fg_job (jobs s') p \<and>
       (\<forall>m<k. \<exists>sm. handle_rounds (take m env) s = Inr sm \<and> fg_job (jobs sm) p))"
  (is "?L env s \<longleftrightarrow> (\<exists>k\<le>length env. ?R env s k)")
  using assms
proof (induction env arbitrary: s)
  case Nil
  then show ?case by (auto simp: follows_fg_job)
next
  case (Cons sigs env)
  note fo = \<open>follows p i s\<close>
  show ?case
  proof (cases "state (jobs s ! i) = FG")
    case False
    with fo have nfg: "\<not> fg_job (jobs s) p" by (simp add: follows_fg_job)
    have "?R (sigs # env) s k \<longleftrightarrow> k = 0 \<and> s' = s" for k
    proof (cases k)
      case 0
      with nfg show ?thesis by auto
    next
      case (Suc k')
      with nfg show ?thesis by (auto dest!: spec [of _ 0])
    qed
    then have "(\<exists>k\<le>length (sigs # env). ?R (sigs # env) s k) \<longleftrightarrow> s' = s" by auto
    with False show ?thesis by auto
  next
    case True
    with fo have fg: "fg_job (jobs s) p" by (simp add: follows_fg_job)
    show ?thesis
    proof (cases "handle_all sigs s")
      case (Inl e)
      have "\<not> ?R (sigs # env) s k" for k
        using fg Inl by (cases k) auto
      with True Inl show ?thesis by auto
    next
      case (Inr s1)
      from follows_handle_all [OF fo Inr] have "follows p i s1" .
      from Cons.IH [OF this]
      have IH: "?L env s1 \<longleftrightarrow> (\<exists>k\<le>length env. ?R env s1 k)" .
      have shift: "?R (sigs # env) s (Suc k) \<longleftrightarrow> ?R env s1 k" for k
      proof
        assume r: "?R (sigs # env) s (Suc k)"
        have "\<exists>sm. handle_rounds (take m env) s1 = Inr sm \<and> fg_job (jobs sm) p" if "m < k" for m
          using r that Inr by (auto dest!: spec [of _ "Suc m"])
        with r Inr show "?R env s1 k" by simp
      next
        assume r: "?R env s1 k"
        have "\<exists>sm. handle_rounds (take m (sigs # env)) s = Inr sm \<and> fg_job (jobs sm) p"
          if "m < Suc k" for m
        proof (cases m)
          case 0
          with fg show ?thesis by simp
        next
          case (Suc m')
          with that r Inr show ?thesis by simp
        qed
        with r Inr show "?R (sigs # env) s (Suc k)" by simp
      qed
      have zero: "\<not> ?R (sigs # env) s 0" using fg by auto
      have "(\<exists>k\<le>length (sigs # env). ?R (sigs # env) s k) \<longleftrightarrow> (\<exists>k\<le>length env. ?R env s1 k)"
      proof
        assume "\<exists>k\<le>length (sigs # env). ?R (sigs # env) s k"
        then obtain k where k: "k \<le> length (sigs # env)" "?R (sigs # env) s k" by blast
        with zero obtain k' where "k = Suc k'" by (cases k) auto
        with k shift [of k'] have "k' \<le> length env" "?R env s1 k'" by simp_all
        then show "\<exists>k\<le>length env. ?R env s1 k" by blast
      next
        assume "\<exists>k\<le>length env. ?R env s1 k"
        then obtain k where "k \<le> length env" "?R env s1 k" by blast
        with shift [of k] have "Suc k \<le> length (sigs # env)" "?R (sigs # env) s (Suc k)"
          by simp_all
        then show "\<exists>k\<le>length (sigs # env). ?R (sigs # env) s k" by blast
      qed
      with IH True Inr show ?thesis by simp
    qed
  qed
qed

subsection \<open>Every operation keeps the table well-formed\<close>

lemma wf_shell_emit [simp]: "wf_shell (emit e s) = wf_shell s"
  by (simp add: wf_shell_def emit_def)

lemma wf_shell_addjob:
  assumes "wf_shell s"
  shows "wf_shell (snd (addjob s p st cmd))"
proof (cases "fst (addjob s p st cmd) = 0")
  case True
  with addjob_cases [OF surjective_pairing, of s p st cmd] assms show ?thesis
    by (simp add: wf_shell_def)
next
  case False
  with addjob_cases [OF surjective_pairing, of s p st cmd]
  obtain i where i: "jobs (snd (addjob s p st cmd)) =
      (jobs s)[i := \<lparr>pid = p, jid = nextjid s, state = st, cmdline = cmd\<rparr>]" and p: "1 \<le> p"
    by auto
  from assms p have "slot_ok \<lparr>pid = p, jid = nextjid s, state = st, cmdline = cmd\<rparr>"
    by (simp add: slot_ok_def wf_shell_def)
  with assms i have "wf_jobs (jobs (snd (addjob s p st cmd)))"
    by (simp add: wf_shell_def wf_jobs_update)
  moreover from addjob_nextjid [OF False] assms have "1 \<le> nextjid (snd (addjob s p st cmd))"
    by (simp add: wf_shell_def)
  ultimately show ?thesis by (simp add: wf_shell_def)
qed

lemma wf_shell_deletejob:
  assumes "wf_shell s"
  shows "wf_shell (snd (deletejob s p))"
proof (cases "getjobpid (jobs s) p")
  case None
  with assms show ?thesis by (simp add: deletejob_not_found)
next
  case (Some i)
  with assms maxjid_nonneg [of "(jobs s)[i := clearjob (jobs s ! i)]"] show ?thesis
    by (simp add: deletejob_found wf_shell_def wf_jobs_clear)
qed

lemma wf_jobs_set_state_jid:
  assumes "wf_jobs js" "getjobjid js n = Some i"
  shows "wf_jobs (js[i := (js ! i)\<lparr>state := st\<rparr>])"
proof (rule wf_jobs_update [OF assms(1)])
  from getjobjid_SomeD [OF assms(2)] have "i < MAXJOBS" "1 \<le> jid (js ! i)" by simp_all
  with wf_jobs_nth [OF assms(1), of i] show "slot_ok ((js ! i)\<lparr>state := st\<rparr>)"
    by (auto simp: slot_ok_def)
qed


lemma nextjid_bgfg_switch [simp]: "nextjid (fst (bgfg_switch cmd i p s)) = nextjid s"
  by (simp add: bgfg_switch_def Let_def emit_def)

lemma wf_shell_bgfg_step:
  assumes "wf_shell s"
  shows "wf_shell (fst (bgfg_step cmd rest s))"
proof -
  from assms have wf: "wf_jobs (jobs s)" by (simp add: wf_shell_def)
  have sw: "wf_shell (fst (bgfg_switch cmd i p s))"
    if "\<And>st. wf_jobs ((jobs s)[i := (jobs s ! i)\<lparr>state := st\<rparr>])" for i p
    using that assms by (simp add: wf_shell_def bgfg_switch_def Let_def emit_def)
  show ?thesis
    using assms wf_jobs_set_state_jid [OF wf] wf_jobs_set_state [OF wf]
    by (auto simp: bgfg_step_def sw split: list.splits option.splits)
qed

lemma wf_shell_reap: "wf_shell s \<Longrightarrow> reap p w s = Inr s' \<Longrightarrow> wf_shell s'"
proof (cases w)
  case (Exited c)
  assume "wf_shell s" "reap p w s = Inr s'"
  with Exited wf_shell_deletejob [of s p] show ?thesis by auto
next
  case (Signaled n)
  assume "wf_shell s" "reap p w s = Inr s'"
  with Signaled wf_shell_deletejob [of "emit (Printf ''Job [%d] (%d) terminated by signal %d\<newline>'' [Num (pid2jid s p), Num p, Num n]) s" p]
  show ?thesis by auto
next
  case (Stopped n)
  assume "wf_shell s" "reap p w s = Inr s'"
  with Stopped show ?thesis
    by (auto simp: wf_shell_def Let_def emit_def wf_jobs_set_state split: option.splits)
next
  case Continued
  assume "wf_shell s" "reap p w s = Inr s'"
  with Continued show ?thesis by simp
qed

lemma wf_shell_apply_op: "wf_shell s \<Longrightarrow> apply_op op s = Inr s' \<Longrightarrow> wf_shell s'"
  by (cases op) (auto simp: wf_shell_addjob wf_shell_deletejob wf_shell_bgfg_step wf_shell_reap)

lemma wf_shell_run: "wf_shell s \<Longrightarrow> run ops s = Inr s' \<Longrightarrow> wf_shell s'"
proof (induction ops arbitrary: s)
  case Nil
  then show ?case by simp
next
  case (Cons op ops)
  from Cons.prems(2) obtain s1 where s1: "apply_op op s = Inr s1" "run ops s1 = Inr s'"
    by (auto split: sum.splits)
  from wf_shell_apply_op [OF Cons.prems(1) s1(1)] s1(2) show ?case by (rule Cons.IH)
qed

lemma wf_shell_init: "wf_shell init_shell"
  by code_simp

text \<open>Every table that a sequence of operations builds from the initial one is well-formed.\<close>

lemma wf_shell_reachable: "run ops init_shell = Inr s \<Longrightarrow> wf_shell s"
  using wf_shell_init by (rule wf_shell_run)

section \<open>The shell at its prompt\<close>











lemma at_prompt_emit [simp]: "at_prompt (emit e s) = at_prompt s"
  by (simp add: at_prompt_def)











subsection \<open>Job IDs along a sequence without a wrap\<close>

lemma maxjid_le:
  assumes "\<And>k. k < MAXJOBS \<Longrightarrow> jid (js' ! k) \<le> jid (js ! k)"
  shows "maxjid js' \<le> maxjid js"
proof -
  from maxjid_mem [of js'] show ?thesis
  proof
    assume "maxjid js' = 0"
    with maxjid_nonneg [of js] show ?thesis by simp
  next
    assume "\<exists>k<MAXJOBS. maxjid js' = jid (js' ! k)"
    then obtain k where "k < MAXJOBS" "maxjid js' = jid (js' ! k)" by blast
    with assms [of k] maxjid_ge [of k js] show ?thesis by simp
  qed
qed

lemma maxjid_set_state: "maxjid (js[i := (js ! i)\<lparr>state := st\<rparr>]) = maxjid js"
proof -
  have "jid (js[i := (js ! i)\<lparr>state := st\<rparr>] ! k) = jid (js ! k)" for k
    by (cases "i < length js"; cases "k = i") (simp_all add: list_update_beyond)
  then show ?thesis
    using maxjid_le [of "js[i := (js ! i)\<lparr>state := st\<rparr>]" js]
      maxjid_le [of js "js[i := (js ! i)\<lparr>state := st\<rparr>]"]
    by simp
qed

lemma distinct_jids_set_state:
  "distinct_jids js \<Longrightarrow> distinct_jids (js[i := (js ! i)\<lparr>state := st\<rparr>])"
proof -
  have "map jid (js[i := (js ! i)\<lparr>state := st\<rparr>]) = map jid js"
    by (cases "i < length js") (simp_all add: map_update list_update_same_conv list_update_beyond)
  then show "distinct_jids js \<Longrightarrow> distinct_jids (js[i := (js ! i)\<lparr>state := st\<rparr>])"
    by (simp add: distinct_jids_def)
qed

lemma distinct_jids_clear:
  assumes "distinct_jids js"
  shows "distinct_jids (js[i := clearjob (js ! i)])"
proof (rule distinct_jidsI)
  fix a b
  let ?js = "js[i := clearjob (js ! i)]"
  assume a: "a < length ?js" and b: "b < length ?js"
    and eq: "jid (?js ! a) = jid (?js ! b)" and nz: "jid (?js ! a) \<noteq> 0"
  from nz a have "a \<noteq> i" by (auto simp: clearjob_def)
  moreover from nz eq b have "b \<noteq> i" by (auto simp: clearjob_def)
  ultimately show "a = b"
    using a b eq nz distinct_jidsD [OF assms, of a b] by simp
qed

lemma ids_in_order_emit [simp]: "ids_in_order (emit e s) = ids_in_order s"
  by (simp add: ids_in_order_def)

lemma ids_in_order_deletejob:
  assumes "ids_in_order s"
  shows "ids_in_order (snd (deletejob s q))"
proof (cases "getjobpid (jobs s) q")
  case None
  with assms show ?thesis by (simp add: deletejob_not_found)
next
  case (Some k)
  from assms have "wf_shell (snd (deletejob s q))"
    by (simp add: ids_in_order_def wf_shell_deletejob)
  moreover from assms have "distinct_jids (jobs (snd (deletejob s q)))"
    by (simp add: ids_in_order_def deletejob_found [OF Some] distinct_jids_clear)
  ultimately show ?thesis
    using deletejob_above [OF Some] by (simp add: ids_in_order_def)
qed

lemma ids_in_order_set_state:
  assumes "ids_in_order s" "wf_jobs ((jobs s)[i := (jobs s ! i)\<lparr>state := st\<rparr>])"
  shows "ids_in_order (s\<lparr>jobs := (jobs s)[i := (jobs s ! i)\<lparr>state := st\<rparr>]\<rparr>)"
  using assms by (simp add: ids_in_order_def wf_shell_def maxjid_set_state distinct_jids_set_state)

lemma ids_in_order_addjob:
  assumes "ids_in_order s" "nextjid s < int MAXJOBS"
  shows "ids_in_order (snd (addjob s p st cmd))"
proof (cases "fst (addjob s p st cmd) = 0")
  case True
  with addjob_cases [OF surjective_pairing, of s p st cmd] assms(1)
    wf_shell_addjob [of s p st cmd]
  show ?thesis by (simp add: ids_in_order_def)
next
  case False
  from assms(1) have "wf_jobs (jobs s)" "maxjid (jobs s) < nextjid s" "distinct_jids (jobs s)"
    by (simp_all add: ids_in_order_def wf_shell_def)
  from addjob_above [OF this(1,2) False] this(3) assms(2)
  have "maxjid (jobs (snd (addjob s p st cmd))) < nextjid (snd (addjob s p st cmd))"
    "distinct_jids (jobs (snd (addjob s p st cmd)))"
    by blast+
  with assms(1) wf_shell_addjob [of s p st cmd] show ?thesis
    by (simp add: ids_in_order_def)
qed

lemma ids_in_order_bgfg_step:
  assumes "ids_in_order s"
  shows "ids_in_order (fst (bgfg_step cmd rest s))"
proof -
  from assms have wf: "wf_jobs (jobs s)" by (simp add: ids_in_order_def wf_shell_def)
  have sw: "ids_in_order (fst (bgfg_switch cmd i p s))"
    if "\<And>st. wf_jobs ((jobs s)[i := (jobs s ! i)\<lparr>state := st\<rparr>])" for i p
    using that assms
    by (simp add: bgfg_switch_def Let_def emit_def ids_in_order_def wf_shell_def
        maxjid_set_state distinct_jids_set_state)
  show ?thesis
    using assms wf_jobs_set_state_jid [OF wf] wf_jobs_set_state [OF wf]
    by (auto simp: bgfg_step_def sw split: list.splits option.splits)
qed

lemma ids_in_order_reap: "ids_in_order s \<Longrightarrow> reap p w s = Inr s' \<Longrightarrow> ids_in_order s'"
proof (cases w)
  case (Exited c)
  assume "ids_in_order s" "reap p w s = Inr s'"
  with Exited ids_in_order_deletejob [of s p] show ?thesis by auto
next
  case (Signaled n)
  assume "ids_in_order s" "reap p w s = Inr s'"
  with Signaled ids_in_order_deletejob [of "emit (Printf ''Job [%d] (%d) terminated by signal %d\<newline>'' [Num (pid2jid s p), Num p, Num n]) s" p]
  show ?thesis by auto
next
  case (Stopped n)
  assume a: "ids_in_order s" "reap p w s = Inr s'"
  then have wf: "wf_jobs (jobs s)" by (simp add: ids_in_order_def wf_shell_def)
  from a Stopped ids_in_order_set_state [OF a(1) wf_jobs_set_state [OF wf]] show ?thesis
    by (auto simp: Let_def split: option.splits)
next
  case Continued
  assume "ids_in_order s" "reap p w s = Inr s'"
  with Continued show ?thesis by simp
qed

lemma ids_in_order_run:
  "ids_in_order s \<Longrightarrow> never_wraps ops s \<Longrightarrow> run ops s = Inr s' \<Longrightarrow> ids_in_order s'"
proof (induction ops arbitrary: s)
  case Nil
  then show ?case by simp
next
  case (Cons op ops)
  from Cons.prems(3) obtain s1 where s1: "apply_op op s = Inr s1" "run ops s1 = Inr s'"
    by (auto split: sum.splits)
  with Cons.prems(2) have nw: "never_wraps ops s1" by simp
  have "ids_in_order s1"
  proof (cases op)
    case (AddJob p st cmd)
    with Cons.prems(1,2) s1(1) ids_in_order_addjob [of s p st cmd] show ?thesis by auto
  next
    case (DeleteJob p)
    with Cons.prems(1) s1(1) ids_in_order_deletejob [of s p] show ?thesis by auto
  next
    case (BgFg cmd rest)
    with Cons.prems(1) s1(1) ids_in_order_bgfg_step [of s cmd rest] show ?thesis by auto
  next
    case (Reap p w)
    with Cons.prems(1) s1(1) ids_in_order_reap [of s p w s1] show ?thesis by auto
  qed
  from this nw s1(2) show ?case by (rule Cons.IH)
qed

lemma ids_in_order_init: "ids_in_order init_shell"
  by code_simp

lemma clearjob_eq: "clearjob job = \<lparr>pid = 0, jid = 0, state = UNDEF, cmdline = []\<rparr>"
  by (cases job) (simp add: clearjob_def)

lemma maxjid_after_clear:
  assumes "wf_jobs js" "i < MAXJOBS"
  shows "maxjid (js[i := clearjob (js ! i)]) =
    Max (insert 0 {jid (js ! k) | k. k < MAXJOBS \<and> k \<noteq> i \<and> pid (js ! k) \<noteq> 0})"
proof -
  let ?js = "js[i := clearjob (js ! i)]"
  have len: "length js = MAXJOBS" using assms(1) by (rule wf_jobs_length)
  have zero: "jid (js ! k) = 0" if "k < MAXJOBS" "pid (js ! k) = 0" for k
    using wf_jobs_nth [OF assms(1) that(1)] that(2) by (auto simp: slot_ok_def)
  have "insert 0 (jid ` set ?js) =
      insert 0 {jid (js ! k) | k. k < MAXJOBS \<and> k \<noteq> i \<and> pid (js ! k) \<noteq> 0}"
    (is "?A = ?B")
  proof (rule set_eqI)
    fix n
    show "n \<in> ?A \<longleftrightarrow> n \<in> ?B"
    proof
      assume "n \<in> ?A"
      then consider "n = 0" | k where "k < MAXJOBS" "n = jid (?js ! k)"
        using len by (auto simp: in_set_conv_nth)
      then show "n \<in> ?B"
      proof cases
        case 1
        then show ?thesis by simp
      next
        case 2
        show ?thesis
        proof (cases "k = i \<or> pid (js ! k) = 0")
          case True
          with 2 len zero [of k] have "n = 0"
            by (cases "k = i") (auto simp: clearjob_def)
          then show ?thesis by simp
        next
          case False
          with 2 have "n = jid (js ! k)" "k < MAXJOBS" "k \<noteq> i" "pid (js ! k) \<noteq> 0" by simp_all
          then show ?thesis by blast
        qed
      qed
    next
      assume "n \<in> ?B"
      then consider "n = 0" | k where "k < MAXJOBS" "k \<noteq> i" "n = jid (js ! k)" by blast
      then show "n \<in> ?A"
      proof cases
        case 1
        then show ?thesis by simp
      next
        case 2
        then have "n = jid (?js ! k)" "k < length ?js" using len by simp_all
        then have "n \<in> jid ` set ?js" using nth_mem [of k ?js] by blast
        then show ?thesis by simp
      qed
    qed
  qed
  moreover have "length ?js = MAXJOBS" using len by simp
  ultimately show ?thesis using maxjid_Max [of ?js] by simp
qed

subsection \<open>The child-status handler and a child that has a job\<close>

text \<open>
  For a reaped child \<open>p\<close> whose job is in the table (in slot \<open>i\<close>, the first with that pid):
  if the child exited, the handler clears the slot as \<open>deletejob\<close> does and prints nothing;
  if a signal \<open>n\<close> killed it, the handler prints \<^verbatim>\<open>Job [%d] (%d) terminated by signal %d\<close>
  with the job's ID, \<open>p\<close> and \<open>n\<close>, and clears the slot; if it stopped, the handler sets the
  job's state to \<open>ST\<close> and prints \<^verbatim>\<open>Job [%d] (%d) stopped by signal %d\<close>, and the job stays
  in its slot. In each case the handler goes on with the next child.
\<close>

lemma sigchld_handler_tracked:
  assumes "wf_jobs (jobs s)" and "getjobpid (jobs s) p = Some i"
  shows "pid (jobs s ! i) = p \<and>
    sigchld_handler ((p, Exited c) # rest) s =
      sigchld_handler rest
        (s\<lparr>jobs := (jobs s)[i := clearjob (jobs s ! i)],
           nextjid := maxjid ((jobs s)[i := clearjob (jobs s ! i)]) + 1\<rparr>) \<and>
    sigchld_handler ((p, Signaled n) # rest) s =
      sigchld_handler rest
        (s\<lparr>jobs := (jobs s)[i := clearjob (jobs s ! i)],
           nextjid := maxjid ((jobs s)[i := clearjob (jobs s ! i)]) + 1,
           trace := trace s @
             [Printf ''Job [%d] (%d) terminated by signal %d\<newline>'' [Num (jid (jobs s ! i)), Num p, Num n]]\<rparr>) \<and>
    sigchld_handler ((p, Stopped n) # rest) s =
      sigchld_handler rest
        (s\<lparr>jobs := (jobs s)[i := (jobs s ! i)\<lparr>state := ST\<rparr>],
           trace := trace s @
             [Printf ''Job [%d] (%d) stopped by signal %d\<newline>'' [Num (jid (jobs s ! i)), Num p, Num n]]\<rparr>) \<and>
    getjobpid ((jobs s)[i := (jobs s ! i)\<lparr>state := ST\<rparr>]) p = Some i \<and>
    (distinct_pids (jobs s) \<longrightarrow> getjobpid ((jobs s)[i := clearjob (jobs s ! i)]) p = None)"
proof -
  from getjobpid_SomeD [OF assms(2)] have p: "1 \<le> p" "i < MAXJOBS" "pid (jobs s ! i) = p"
    by simp_all
  have len: "length (jobs s) = MAXJOBS" using assms(1) by (rule wf_jobs_length)
  have ex: "sigchld_handler ((p, Exited c) # rest) s =
      sigchld_handler rest
        (s\<lparr>jobs := (jobs s)[i := clearjob (jobs s ! i)],
           nextjid := maxjid ((jobs s)[i := clearjob (jobs s ! i)]) + 1\<rparr>)"
    using p by (simp add: deletejob_found [OF assms(2)])
  let ?e = "Printf ''Job [%d] (%d) terminated by signal %d\<newline>'' [Num (jid (jobs s ! i)), Num p, Num n]"
  have "getjobpid (jobs (emit ?e s)) p = Some i"
    using assms(2) by (simp add: emit_def)
  from deletejob_found [OF this]
  have "snd (deletejob (emit ?e s) p) =
     s\<lparr>jobs := (jobs s)[i := clearjob (jobs s ! i)],
           nextjid := maxjid ((jobs s)[i := clearjob (jobs s ! i)]) + 1,
           trace := trace s @ [?e]\<rparr>"
    by (cases s) (simp add: emit_def)
  then have sg: "sigchld_handler ((p, Signaled n) # rest) s =
      sigchld_handler rest
        (s\<lparr>jobs := (jobs s)[i := clearjob (jobs s ! i)],
           nextjid := maxjid ((jobs s)[i := clearjob (jobs s ! i)]) + 1,
           trace := trace s @
             [Printf ''Job [%d] (%d) terminated by signal %d\<newline>'' [Num (jid (jobs s ! i)), Num p, Num n]]\<rparr>)"
    using p by (simp add: pid2jid_found [OF assms(2)])
  have st: "getjobpid ((jobs s)[i := (jobs s ! i)\<lparr>state := ST\<rparr>]) p = Some i"
    using assms(2) by (simp add: getjobpid_set_state)
  then have "pid2jid (s\<lparr>jobs := (jobs s)[i := (jobs s ! i)\<lparr>state := ST\<rparr>]\<rparr>) p = jid (jobs s ! i)"
    using p len by (simp add: pid2jid_found)
  then have sp: "sigchld_handler ((p, Stopped n) # rest) s =
      sigchld_handler rest
        (s\<lparr>jobs := (jobs s)[i := (jobs s ! i)\<lparr>state := ST\<rparr>],
           trace := trace s @
             [Printf ''Job [%d] (%d) stopped by signal %d\<newline>'' [Num (jid (jobs s ! i)), Num p, Num n]]\<rparr>)"
    using p assms(2) by (simp add: emit_def Let_def)
  have "distinct_pids (jobs s) \<longrightarrow> getjobpid ((jobs s)[i := clearjob (jobs s ! i)]) p = None"
    using len assms(2) by (auto intro: getjobpid_cleared)
  with p ex sg sp st show ?thesis by blast
qed

subsection \<open>At most one foreground job while the shell waits\<close>




subsection \<open>After the counter wrapped\<close>

text \<open>
  \<open>addjob\<close> sets \<open>nextjid\<close> back to 1 when it has passed \<open>MAXJOBS\<close>, without looking whether
  the ID 1 is in use. Fifteen background jobs, the end of the second, and two more
  background jobs: the children with pids 1 and 17 both have the job ID 1.
\<close>

lemma job_id_duplicate_after_wrap:
  "map_option (map_sum id (map pid \<circ> jobs))
     (shell_run
       [Launch True 1 ''a &'' [], Launch True 2 ''a &'' [], Launch True 3 ''a &'' [],
        Launch True 4 ''a &'' [], Launch True 5 ''a &'' [], Launch True 6 ''a &'' [],
        Launch True 7 ''a &'' [], Launch True 8 ''a &'' [], Launch True 9 ''a &'' [],
        Launch True 10 ''a &'' [], Launch True 11 ''a &'' [], Launch True 12 ''a &'' [],
        Launch True 13 ''a &'' [], Launch True 14 ''a &'' [], Launch True 15 ''a &'' [],
        Signal (SigChld [(2, Exited 0)]),
        Launch True 16 ''a &'' [], Launch True 17 ''a &'' []] init_shell) =
     Some (Inr [1, 16, 3, 4, 5, 6, 7, 8, 9, 10, 11, 12, 13, 14, 15, 17]) \<and>
   map_option (map_sum id (map jid \<circ> jobs))
     (shell_run
       [Launch True 1 ''a &'' [], Launch True 2 ''a &'' [], Launch True 3 ''a &'' [],
        Launch True 4 ''a &'' [], Launch True 5 ''a &'' [], Launch True 6 ''a &'' [],
        Launch True 7 ''a &'' [], Launch True 8 ''a &'' [], Launch True 9 ''a &'' [],
        Launch True 10 ''a &'' [], Launch True 11 ''a &'' [], Launch True 12 ''a &'' [],
        Launch True 13 ''a &'' [], Launch True 14 ''a &'' [], Launch True 15 ''a &'' [],
        Signal (SigChld [(2, Exited 0)]),
        Launch True 16 ''a &'' [], Launch True 17 ''a &'' []] init_shell) =
     Some (Inr [1, 16, 3, 4, 5, 6, 7, 8, 9, 10, 11, 12, 13, 14, 15, 1])"
  by code_simp

section \<open>The claims\<close>

subsection \<open>C1\<close>



subsection \<open>C2\<close>

text \<open>
  C2, as stated: job IDs are assigned in increasing order, each assigned ID is unique among
  the jobs in the table, and an ID is reused only after the counter \<open>nextjid\<close> wrapped and
  all lower IDs are free. The last part fails, by the design of \<open>deletejob\<close>, which sets
  \<open>nextjid\<close> to \<open>maxjid + 1\<close>: after the jobs with pids 1 and 2 got the IDs 1 and 2 and the
  second was deleted, the next job (pid 3) gets the ID 2 again, although the counter never
  wrapped and the lower ID 1 is in use.
\<close>

theorem job_id_reused:
  "\<not> isl (run [AddJob 1 BG ''a &'', AddJob 2 BG ''b &''] init_shell) \<and>
   take 2 (map pid (jobs (projr (run [AddJob 1 BG ''a &'', AddJob 2 BG ''b &''] init_shell)))) = [1, 2] \<and>
   take 2 (map jid (jobs (projr (run [AddJob 1 BG ''a &'', AddJob 2 BG ''b &''] init_shell)))) = [1, 2] \<and>
   \<not> isl (run [AddJob 1 BG ''a &'', AddJob 2 BG ''b &'', DeleteJob 2, AddJob 3 BG ''c &''] init_shell) \<and>
   take 2 (map pid (jobs (projr
     (run [AddJob 1 BG ''a &'', AddJob 2 BG ''b &'', DeleteJob 2, AddJob 3 BG ''c &''] init_shell)))) = [1, 3] \<and>
   take 2 (map jid (jobs (projr
     (run [AddJob 1 BG ''a &'', AddJob 2 BG ''b &'', DeleteJob 2, AddJob 3 BG ''c &''] init_shell)))) = [1, 2]"
  by code_simp

text \<open>
  C2, amended. Let \<open>s\<close> be the state after a sequence of operations from the initial table
  in which \<open>addjob\<close> was only called while \<open>nextjid\<close> was below \<open>MAXJOBS\<close>. Then the job IDs
  in the table are distinct and all below \<open>nextjid\<close>. An \<open>addjob\<close> that succeeds while
  \<open>nextjid\<close> is below \<open>MAXJOBS\<close> puts the job with the ID \<open>nextjid\<close>, greater than every ID in
  the table, into the first empty slot and adds 1 to \<open>nextjid\<close>. A \<open>deletejob\<close> that finds its
  pid sets \<open>nextjid\<close> to \<open>maxjid + 1\<close>, one more than the largest ID among the other jobs (1
  when none is left): the ID of a deleted job is given out again when no job with that or a
  higher ID is left, whether lower IDs are in use or not.
\<close>

theorem job_id_above_table:
  assumes "never_wraps ops init_shell" and "run ops init_shell = Inr s"
  shows "distinct_jids (jobs s) \<and>
    (\<forall>k<MAXJOBS. jid (jobs s ! k) < nextjid s) \<and>
    (nextjid s < int MAXJOBS \<and> fst (addjob s p st cmd) \<noteq> 0 \<longrightarrow>
       (\<exists>i<MAXJOBS. pid (jobs s ! i) = 0 \<and> (\<forall>m<i. pid (jobs s ! m) \<noteq> 0) \<and>
          jobs (snd (addjob s p st cmd)) =
            (jobs s)[i := \<lparr>pid = p, jid = nextjid s, state = st, cmdline = cmd\<rparr>]) \<and>
       nextjid (snd (addjob s p st cmd)) = nextjid s + 1) \<and>
    (getjobpid (jobs s) q = Some k \<longrightarrow>
       nextjid (snd (deletejob s q)) = maxjid (jobs (snd (deletejob s q))) + 1 \<and>
       maxjid (jobs (snd (deletejob s q))) =
         Max (insert 0 {jid (jobs s ! m) | m. m < MAXJOBS \<and> m \<noteq> k \<and> pid (jobs s ! m) \<noteq> 0}))"
proof -
  from ids_in_order_init assms have io: "ids_in_order s" by (rule ids_in_order_run)
  then have wf: "wf_jobs (jobs s)" and lt: "maxjid (jobs s) < nextjid s"
    and dj: "distinct_jids (jobs s)"
    by (simp_all add: ids_in_order_def wf_shell_def)
  have below: "\<forall>k<MAXJOBS. jid (jobs s ! k) < nextjid s"
    using maxjid_ge [of _ "jobs s"] lt by fastforce
  have add: "(\<exists>i<MAXJOBS. pid (jobs s ! i) = 0 \<and> (\<forall>m<i. pid (jobs s ! m) \<noteq> 0) \<and>
          jobs (snd (addjob s p st cmd)) =
            (jobs s)[i := \<lparr>pid = p, jid = nextjid s, state = st, cmdline = cmd\<rparr>]) \<and>
       nextjid (snd (addjob s p st cmd)) = nextjid s + 1"
    if "nextjid s < int MAXJOBS" "fst (addjob s p st cmd) \<noteq> 0"
    using addjob_cases [OF surjective_pairing, of s p st cmd] addjob_nextjid [OF that(2)] that
    by auto
  have del: "nextjid (snd (deletejob s q)) = maxjid (jobs (snd (deletejob s q))) + 1 \<and>
       maxjid (jobs (snd (deletejob s q))) =
         Max (insert 0 {jid (jobs s ! m) | m. m < MAXJOBS \<and> m \<noteq> k \<and> pid (jobs s ! m) \<noteq> 0})"
    if "getjobpid (jobs s) q = Some k"
  proof -
    from getjobpid_SomeD [OF that] have "k < MAXJOBS" by simp
    from maxjid_after_clear [OF wf this] show ?thesis
      by (simp add: deletejob_found [OF that])
  qed
  from dj below add del show ?thesis by blast
qed

theorem job_id_above_table_witness:
  "never_wraps id_session init_shell \<and> run id_session init_shell = Inr after_id_session \<and>
   map pid (take 3 (jobs after_id_session)) = [1, 0, 3] \<and>
   map jid (take 3 (jobs after_id_session)) = [1, 0, 3] \<and>
   nextjid after_id_session = 4 \<and> distinct_jids (jobs after_id_session) \<and>
   nextjid after_id_session < int MAXJOBS \<and> fst (addjob after_id_session 4 BG ''d &'') \<noteq> 0 \<and>
   nextjid (snd (addjob after_id_session 4 BG ''d &'')) = 5 \<and>
   getjobpid (jobs after_id_session) 3 = Some 2 \<and>
   nextjid (snd (deletejob after_id_session 3)) = 2"
proof -
  have a: "never_wraps id_session init_shell" by code_simp
  have b: "run id_session init_shell = Inr after_id_session" by code_simp
  have c: "map pid (take 3 (jobs after_id_session)) = [1, 0, 3]"
    "map jid (take 3 (jobs after_id_session)) = [1, 0, 3]" "nextjid after_id_session = 4"
    by code_simp+
  have d: "nextjid after_id_session < int MAXJOBS" "fst (addjob after_id_session 4 BG ''d &'') \<noteq> 0"
    by code_simp+
  have e: "getjobpid (jobs after_id_session) 3 = Some 2"
    "maxjid (jobs (snd (deletejob after_id_session 3))) = 1" by code_simp+
  from job_id_above_table [OF a b, of 4 BG "''d &''" 3 2] d e(1)
  have 1: "distinct_jids (jobs after_id_session)"
    "nextjid (snd (addjob after_id_session 4 BG ''d &'')) = nextjid after_id_session + 1"
    "nextjid (snd (deletejob after_id_session 3)) =
       maxjid (jobs (snd (deletejob after_id_session 3))) + 1"
    by blast+
  with c(3) e(2) have 2: "nextjid (snd (addjob after_id_session 4 BG ''d &'')) = 5"
    "nextjid (snd (deletejob after_id_session 3)) = 2" by simp_all
  from a b c d e(1) 1(1) 2 show ?thesis by blast
qed

subsection \<open>C3\<close>

text \<open>
  C3. When \<open>deletejob\<close> finds the pid \<open>p\<close> in a well-formed table (in slot \<open>i\<close>, the first
  slot that holds \<open>p\<close>), it returns 1 and empties that slot (pid 0, job ID 0, state
  \<open>UNDEF\<close>, empty command line), so that no slot holds \<open>p\<close> any more when the pids of the
  table are distinct. It sets \<open>nextjid\<close> to \<open>maxjid\<close> of the new table plus 1, and that
  \<open>maxjid\<close> is the largest job ID among the jobs of the old table other than the removed
  one (0 when no job is left).
\<close>

theorem deletejob_sets_nextjid:
  assumes "wf_jobs (jobs s)" and "getjobpid (jobs s) p = Some i"
  shows "fst (deletejob s p) = 1 \<and>
    pid (jobs s ! i) = p \<and>
    jobs (snd (deletejob s p)) =
      (jobs s)[i := \<lparr>pid = 0, jid = 0, state = UNDEF, cmdline = []\<rparr>] \<and>
    nextjid (snd (deletejob s p)) = maxjid (jobs (snd (deletejob s p))) + 1 \<and>
    maxjid (jobs (snd (deletejob s p))) =
      Max (insert 0 {jid (jobs s ! k) | k. k < MAXJOBS \<and> k \<noteq> i \<and> pid (jobs s ! k) \<noteq> 0}) \<and>
    (distinct_pids (jobs s) \<longrightarrow> getjobpid (jobs (snd (deletejob s p))) p = None)"
proof -
  from getjobpid_SomeD [OF assms(2)] have i: "i < MAXJOBS" "pid (jobs s ! i) = p" by simp_all
  have len: "length (jobs s) = MAXJOBS" using assms(1) by (rule wf_jobs_length)
  have "distinct_pids (jobs s) \<longrightarrow> getjobpid ((jobs s)[i := clearjob (jobs s ! i)]) p = None"
    using len assms(2) by (auto intro: getjobpid_cleared)
  with i maxjid_after_clear [OF assms(1) i(1)] show ?thesis
    by (simp add: deletejob_found [OF assms(2)] clearjob_eq)
qed

theorem deletejob_sets_nextjid_witness:
  "wf_jobs (jobs two_jobs) \<and> distinct_pids (jobs two_jobs) \<and>
   getjobpid (jobs two_jobs) 6 = Some 1 \<and> nextjid two_jobs = 3 \<and>
   nextjid (snd (deletejob two_jobs 6)) = 2 \<and>
   maxjid (jobs (snd (deletejob two_jobs 6))) = 1 \<and>
   getjobpid (jobs (snd (deletejob two_jobs 6))) 6 = None \<and>
   jobs (snd (deletejob two_jobs 6)) ! 1 = \<lparr>pid = 0, jid = 0, state = UNDEF, cmdline = []\<rparr> \<and>
   getjobpid (jobs two_jobs) 5 = Some 0 \<and>
   nextjid (snd (deletejob two_jobs 5)) = 3 \<and>
   getjobpid (jobs (snd (deletejob two_jobs 5))) 5 = None"
proof -
  have a: "wf_jobs (jobs two_jobs)" by code_simp
  have d: "distinct_pids (jobs two_jobs)" by code_simp
  have b: "getjobpid (jobs two_jobs) 6 = Some 1" by code_simp
  have n: "nextjid two_jobs = 3" by code_simp
  have m: "maxjid (jobs (snd (deletejob two_jobs 6))) = 1" by code_simp
  from deletejob_sets_nextjid [OF a b] d
  have 0: "nextjid (snd (deletejob two_jobs 6)) = maxjid (jobs (snd (deletejob two_jobs 6))) + 1"
    and 1: "getjobpid (jobs (snd (deletejob two_jobs 6))) 6 = None"
      "jobs (snd (deletejob two_jobs 6)) =
        (jobs two_jobs)[1 := \<lparr>pid = 0, jid = 0, state = UNDEF, cmdline = []\<rparr>]"
    by blast+
  from 0 m have 4: "nextjid (snd (deletejob two_jobs 6)) = 2" by simp
  have "length (jobs two_jobs) = MAXJOBS" by code_simp
  with 1(2) have 2: "jobs (snd (deletejob two_jobs 6)) ! 1 =
      \<lparr>pid = 0, jid = 0, state = UNDEF, cmdline = []\<rparr>"
    by (simp add: MAXJOBS_def)
  have c: "getjobpid (jobs two_jobs) 5 = Some 0" by code_simp
  have c2: "maxjid (jobs (snd (deletejob two_jobs 5))) = 2" by code_simp
  from deletejob_sets_nextjid [OF a c] d
  have 5: "nextjid (snd (deletejob two_jobs 5)) = maxjid (jobs (snd (deletejob two_jobs 5))) + 1"
    and 3: "getjobpid (jobs (snd (deletejob two_jobs 5))) 5 = None"
    by blast+
  from 5 c2 have 6: "nextjid (snd (deletejob two_jobs 5)) = 3" by simp
  from a d b n m 1 2 4 c 3 6 show ?thesis by blast
qed

subsection \<open>C4\<close>

text \<open>
  C4. \<open>addjob\<close> returns 0 exactly when the pid is less than 1 or every one of the 16 slots
  holds a job (its pid is not 0). In both cases the table and \<open>nextjid\<close> are as before.
  Otherwise it returns 1 and the job, with the ID \<open>nextjid\<close>, is in the first slot that was
  empty.
\<close>

theorem addjob_false_iff_invalid_or_full:
  "(fst (addjob s p st cmd) = 0 \<longleftrightarrow> p < 1 \<or> (\<forall>i<MAXJOBS. pid (jobs s ! i) \<noteq> 0)) \<and>
   (fst (addjob s p st cmd) = 0 \<longrightarrow>
      jobs (snd (addjob s p st cmd)) = jobs s \<and> nextjid (snd (addjob s p st cmd)) = nextjid s) \<and>
   (fst (addjob s p st cmd) \<noteq> 0 \<longrightarrow>
      fst (addjob s p st cmd) = 1 \<and>
      (\<exists>i<MAXJOBS. pid (jobs s ! i) = 0 \<and> (\<forall>m<i. pid (jobs s ! m) \<noteq> 0) \<and>
         jobs (snd (addjob s p st cmd)) =
           (jobs s)[i := \<lparr>pid = p, jid = nextjid s, state = st, cmdline = cmd\<rparr>]))"
  by (rule addjob_cases) simp

theorem addjob_false_iff_invalid_or_full_witness:
  "fst (addjob init_shell 7 BG ''ls &'') = 1 \<and>
   fst (addjob init_shell 0 BG ''ls &'') = 0 \<and>
   fst (addjob sixteen_jobs 7 BG ''ls &'') = 0 \<and>
   jobs (snd (addjob sixteen_jobs 7 BG ''ls &'')) = jobs sixteen_jobs"
proof -
  have a: "pid (jobs init_shell ! 0) = 0" by code_simp
  have m: "0 < MAXJOBS" by (simp add: MAXJOBS_def)
  from a m addjob_false_iff_invalid_or_full [of init_shell 7 BG "''ls &''"]
  have 1: "fst (addjob init_shell 7 BG ''ls &'') = 1" by auto
  from addjob_false_iff_invalid_or_full [of init_shell 0 BG "''ls &''"]
  have 2: "fst (addjob init_shell 0 BG ''ls &'') = 0" by simp
  have "list_all (\<lambda>j. pid j \<noteq> 0) (jobs sixteen_jobs)" by code_simp
  moreover have "length (jobs sixteen_jobs) = MAXJOBS" by code_simp
  ultimately have full: "\<forall>i<MAXJOBS. pid (jobs sixteen_jobs ! i) \<noteq> 0"
    by (simp add: list_all_length)
  with addjob_false_iff_invalid_or_full [of sixteen_jobs 7 BG "''ls &''"]
  have 3: "fst (addjob sixteen_jobs 7 BG ''ls &'') = 0"
    and 4: "jobs (snd (addjob sixteen_jobs 7 BG ''ls &'')) = jobs sixteen_jobs"
    by simp_all
  from 1 2 3 4 show ?thesis by simp
qed

subsection \<open>C5\<close>

text \<open>
  C5, as stated: for every pid the child-status handler reaps, it deletes the job silently
  when the child exited, prints \<^verbatim>\<open>Job [%d] (%d) terminated by signal %d\<close> and deletes the job
  when a signal killed the child, and sets the job's state to \<open>ST\<close> and prints
  \<^verbatim>\<open>Job [%d] (%d) stopped by signal %d\<close> when the child stopped. The code does so for a
  child that has a job in the table (lemma \<open>sigchld_handler_tracked\<close>). It does not for
  every reaped pid: with sixteen jobs in the table a seventeenth command, here \<^verbatim>\<open>vi\<close> in
  the foreground, runs without a job (\<open>addjob\<close> fails, \<open>waitfg\<close> returns at once). When
  that child is stopped, the handler neither sets a state nor prints: it writes through the
  \<^verbatim>\<open>NULL\<close> that \<open>getjobpid\<close> returned.
\<close>

theorem sigchld_stopped_child_without_job:
  "shell_run
    [Launch True 101 ''sleep 100 &\<newline>'' [], Launch True 102 ''sleep 100 &\<newline>'' [],
     Launch True 103 ''sleep 100 &\<newline>'' [], Launch True 104 ''sleep 100 &\<newline>'' [],
     Launch True 105 ''sleep 100 &\<newline>'' [], Launch True 106 ''sleep 100 &\<newline>'' [],
     Launch True 107 ''sleep 100 &\<newline>'' [], Launch True 108 ''sleep 100 &\<newline>'' [],
     Launch True 109 ''sleep 100 &\<newline>'' [], Launch True 110 ''sleep 100 &\<newline>'' [],
     Launch True 111 ''sleep 100 &\<newline>'' [], Launch True 112 ''sleep 100 &\<newline>'' [],
     Launch True 113 ''sleep 100 &\<newline>'' [], Launch True 114 ''sleep 100 &\<newline>'' [],
     Launch True 115 ''sleep 100 &\<newline>'' [], Launch True 116 ''sleep 100 &\<newline>'' [],
     Launch False 117 ''vi\<newline>'' [],
     Signal (SigChld [(117, Stopped 19)])] init_shell = Some (Inl NullDeref)"
  by code_simp

subsection \<open>C6\<close>

text \<open>
  C6. In a well-formed table the interrupt and the stop handler leave the state as it is
  when no slot has state \<open>FG\<close>. Otherwise they send their signal to minus the pid of the
  (first) slot with state \<open>FG\<close>, the process group of the foreground job, and that entry
  of the trace is all they change: the table and \<open>nextjid\<close> stay as they are.
\<close>

theorem forward_handlers:
  assumes "wf_jobs (jobs s)"
  shows "(fg_count (jobs s) = 0 \<longrightarrow> sigint_handler sig s = s \<and> sigtstp_handler sig s = s) \<and>
    (fg_count (jobs s) \<noteq> 0 \<longrightarrow>
       (\<exists>i<MAXJOBS. state (jobs s ! i) = FG \<and> (\<forall>m<i. state (jobs s ! m) \<noteq> FG) \<and>
          sigint_handler sig s = s\<lparr>trace := trace s @ [Kill (- pid (jobs s ! i)) sig]\<rparr> \<and>
          sigtstp_handler sig s = s\<lparr>trace := trace s @ [Kill (- pid (jobs s ! i)) sig]\<rparr>)) \<and>
    jobs (sigint_handler sig s) = jobs s \<and> nextjid (sigint_handler sig s) = nextjid s \<and>
    jobs (sigtstp_handler sig s) = jobs s \<and> nextjid (sigtstp_handler sig s) = nextjid s"
proof (intro conjI impI)
  assume "fg_count (jobs s) = 0"
  with assms have "getjobpid (jobs s) (fgpid (jobs s)) = None" by (rule forward_noop)
  then show "sigint_handler sig s = s" "sigtstp_handler sig s = s"
    by (simp_all add: sigint_handler_def sigtstp_handler_def)
next
  assume "fg_count (jobs s) \<noteq> 0"
  with assms obtain i where "i < MAXJOBS" "state (jobs s ! i) = FG"
    "\<forall>m<i. state (jobs s ! m) \<noteq> FG" "fgpid (jobs s) = pid (jobs s ! i)"
    "getjobpid (jobs s) (fgpid (jobs s)) \<noteq> None"
    using forward_target by blast
  then show "\<exists>i<MAXJOBS. state (jobs s ! i) = FG \<and> (\<forall>m<i. state (jobs s ! m) \<noteq> FG) \<and>
          sigint_handler sig s = s\<lparr>trace := trace s @ [Kill (- pid (jobs s ! i)) sig]\<rparr> \<and>
          sigtstp_handler sig s = s\<lparr>trace := trace s @ [Kill (- pid (jobs s ! i)) sig]\<rparr>"
    by (intro exI [of _ i]) (auto simp: sigint_handler_def sigtstp_handler_def emit_def Let_def)
qed (simp_all add: sigint_handler_def sigtstp_handler_def emit_def Let_def)

theorem forward_handlers_witness:
  "wf_jobs (jobs init_shell) \<and> fg_count (jobs init_shell) = 0 \<and>
   sigint_handler SIGINT init_shell = init_shell \<and>
   wf_jobs (jobs two_jobs) \<and> fg_count (jobs two_jobs) \<noteq> 0 \<and>
   sigtstp_handler SIGTSTP two_jobs = two_jobs\<lparr>trace := trace two_jobs @ [Kill (- 5) SIGTSTP]\<rparr>"
proof -
  have a: "wf_jobs (jobs init_shell)" by code_simp
  have b: "fg_count (jobs init_shell) = 0" by code_simp
  from forward_handlers [OF a, of SIGINT] b
  have 1: "sigint_handler SIGINT init_shell = init_shell" by simp
  have c: "wf_jobs (jobs two_jobs)" by code_simp
  have d: "fg_count (jobs two_jobs) \<noteq> 0" by code_simp
  have e: "state (jobs two_jobs ! 0) = FG" "pid (jobs two_jobs ! 0) = 5" by code_simp+
  from forward_handlers [OF c, of SIGTSTP] d
  obtain i where i: "state (jobs two_jobs ! i) = FG" "\<forall>m<i. state (jobs two_jobs ! m) \<noteq> FG"
    "sigtstp_handler SIGTSTP two_jobs =
       two_jobs\<lparr>trace := trace two_jobs @ [Kill (- pid (jobs two_jobs ! i)) SIGTSTP]\<rparr>"
    by blast
  from i(2) e(1) have "i = 0" by (cases "i = 0") auto
  with i(3) e(2) have 2: "sigtstp_handler SIGTSTP two_jobs =
       two_jobs\<lparr>trace := trace two_jobs @ [Kill (- 5) SIGTSTP]\<rparr>" by simp
  from a b 1 c d 2 show ?thesis by blast
qed

subsection \<open>C7\<close>

text \<open>
  C7. In a well-formed table with distinct pids, \<open>waitfg p\<close> returns in state \<open>s'\<close> exactly
  when \<open>s'\<close> is the state at the first reading of the table (at entry, or after one more
  \<^verbatim>\<open>sleep(1)\<close> with the signals handled during it) at which the table holds no job with pid
  \<open>p\<close> in state \<open>FG\<close>; at every earlier reading the job was there and in state \<open>FG\<close>.
  \<open>waitfg\<close> only reads the table, and the state it returns is the one the handlers left.
  When no job has the pid \<open>p\<close> at entry it returns at once, in the state it was called in.
\<close>

theorem waitfg_returns_when_not_foreground:
  assumes "wf_jobs (jobs s)" and "distinct_pids (jobs s)"
  shows "(waitfg p env s = Some (Inr s') \<longleftrightarrow>
      (\<exists>k\<le>length env. handle_rounds (take k env) s = Inr s' \<and> \<not> fg_job (jobs s') p \<and>
         (\<forall>m<k. \<exists>sm. handle_rounds (take m env) s = Inr sm \<and> fg_job (jobs sm) p))) \<and>
    (getjobpid (jobs s) p = None \<longrightarrow> waitfg p env s = Some (Inr s))"
proof (cases "getjobpid (jobs s) p")
  case None
  then have nfg: "\<not> fg_job (jobs s) p" by (simp add: fg_job_def)
  have "(\<exists>k\<le>length env. handle_rounds (take k env) s = Inr s' \<and> \<not> fg_job (jobs s') p \<and>
         (\<forall>m<k. \<exists>sm. handle_rounds (take m env) s = Inr sm \<and> fg_job (jobs sm) p)) \<longleftrightarrow> s' = s"
  proof
    assume "\<exists>k\<le>length env. handle_rounds (take k env) s = Inr s' \<and> \<not> fg_job (jobs s') p \<and>
         (\<forall>m<k. \<exists>sm. handle_rounds (take m env) s = Inr sm \<and> fg_job (jobs sm) p)"
    then obtain k where k: "handle_rounds (take k env) s = Inr s'"
      "\<forall>m<k. \<exists>sm. handle_rounds (take m env) s = Inr sm \<and> fg_job (jobs sm) p" by blast
    from k(2) nfg have "k = 0" by (cases k) (auto dest!: spec [of _ 0])
    with k(1) show "s' = s" by simp
  next
    assume "s' = s"
    with nfg have "handle_rounds (take 0 env) s = Inr s' \<and> \<not> fg_job (jobs s') p \<and>
         (\<forall>m<0. \<exists>sm. handle_rounds (take m env) s = Inr sm \<and> fg_job (jobs sm) p)" by simp
    then show "\<exists>k\<le>length env. handle_rounds (take k env) s = Inr s' \<and> \<not> fg_job (jobs s') p \<and>
         (\<forall>m<k. \<exists>sm. handle_rounds (take m env) s = Inr sm \<and> fg_job (jobs sm) p)" by blast
  qed
  with None show ?thesis by (auto simp: waitfg_def)
next
  case (Some i)
  with assms have "follows p i s" by (simp add: follows_def)
  from waitfg_loop_returns [OF this, of env s'] Some show ?thesis
    by (simp add: waitfg_def)
qed

theorem waitfg_returns_when_not_foreground_witness:
  "wf_jobs (jobs two_jobs) \<and> distinct_pids (jobs two_jobs) \<and>
   fg_job (jobs two_jobs) 5 \<and>
   waitfg 5 [[SigTstp], [SigChld [(5, Stopped 20)]], [SigInt]] two_jobs =
     Some (handle_rounds [[SigTstp], [SigChld [(5, Stopped 20)]]] two_jobs) \<and>
   getjobpid (jobs two_jobs) 9 = None \<and>
   waitfg 9 [[SigTstp], [SigChld [(5, Stopped 20)]], [SigInt]] two_jobs = Some (Inr two_jobs)"
proof -
  let ?env = "[[SigTstp], [SigChld [(5, Stopped 20)]], [SigInt]]"
  let ?s2 = "projr (handle_rounds [[SigTstp], [SigChld [(5, Stopped 20)]]] two_jobs)"
  have a: "wf_jobs (jobs two_jobs)" by code_simp
  have b: "distinct_pids (jobs two_jobs)" by code_simp
  have r0: "fg_job (jobs two_jobs) 5" by code_simp
  have r1: "\<not> isl (handle_rounds [[SigTstp]] two_jobs)"
    "fg_job (jobs (projr (handle_rounds [[SigTstp]] two_jobs))) 5" by code_simp+
  have r2: "\<not> isl (handle_rounds [[SigTstp], [SigChld [(5, Stopped 20)]]] two_jobs)"
    "\<not> fg_job (jobs ?s2) 5" by code_simp+
  have e2: "handle_rounds (take 2 ?env) two_jobs = Inr ?s2" using r2(1) by simp
  have before: "\<exists>sm. handle_rounds (take m ?env) two_jobs = Inr sm \<and> fg_job (jobs sm) 5"
    if "m < 2" for m
  proof -
    from that consider "m = 0" | "m = 1" by linarith
    then show ?thesis
    proof cases
      case 1
      with r0 show ?thesis by simp
    next
      case 2
      from r1(1) have "handle_rounds (take 1 ?env) two_jobs =
          Inr (projr (handle_rounds [[SigTstp]] two_jobs))" by simp
      with r1(2) 2 show ?thesis by blast
    qed
  qed
  have "\<exists>k\<le>length ?env. handle_rounds (take k ?env) two_jobs = Inr ?s2 \<and> \<not> fg_job (jobs ?s2) 5 \<and>
      (\<forall>m<k. \<exists>sm. handle_rounds (take m ?env) two_jobs = Inr sm \<and> fg_job (jobs sm) 5)"
    using e2 r2(2) before by (intro exI [of _ 2]) simp
  with waitfg_returns_when_not_foreground [OF a b, of 5 ?env ?s2]
  have 1: "waitfg 5 ?env two_jobs = Some (Inr ?s2)" by blast
  have c: "getjobpid (jobs two_jobs) 9 = None" by code_simp
  with waitfg_returns_when_not_foreground [OF a b, of 9 ?env]
  have 2: "waitfg 9 ?env two_jobs = Some (Inr two_jobs)" by blast
  from r2(1) have "Inr ?s2 = handle_rounds [[SigTstp], [SigChld [(5, Stopped 20)]]] two_jobs"
    by simp
  with a b r0 1 c 2 show ?thesis by simp
qed

subsection \<open>C8\<close>

text \<open>
  C8. \<^verbatim>\<open>do_bgfg\<close> without an argument, with \<^verbatim>\<open>%n\<close> when no job has the ID that \<open>atoi\<close>
  reads from \<open>n\<close> (a 32-bit \<^verbatim>\<open>int\<close>), with an argument that starts with a digit when no job
  has the pid that \<open>atoi\<close> reads from it, or with an argument that starts with neither
  \<^verbatim>\<open>%\<close> nor a digit (or is empty) prints one diagnostic and returns; nothing else changes:
  the table and \<open>nextjid\<close> are as before and no signal is sent.
\<close>

theorem do_bgfg_unresolved:
  "do_bgfg cmd [] env s =
     Some (Inr (s\<lparr>trace := trace s @
       [Printf ''%s command requires PID or %%jobid argument\<newline>'' [Str cmd]]\<rparr>)) \<and>
   (getjobjid (jobs s) (atoi cs) = None \<longrightarrow>
      do_bgfg cmd ((CHR ''%'' # cs) # args) env s =
        Some (Inr (s\<lparr>trace := trace s @ [Printf ''%s: No such job\<newline>'' [Str (CHR ''%'' # cs)]]\<rparr>))) \<and>
   (isdigit c \<and> getjobpid (jobs s) (atoi (c # cs)) = None \<longrightarrow>
      do_bgfg cmd ((c # cs) # args) env s =
        Some (Inr (s\<lparr>trace := trace s @ [Printf ''(%d): No such process\<newline>'' [Num (atoi (c # cs))]]\<rparr>))) \<and>
   (c \<noteq> CHR ''%'' \<and> \<not> isdigit c \<longrightarrow>
      do_bgfg cmd ((c # cs) # args) env s =
        Some (Inr (s\<lparr>trace := trace s @
          [Printf ''%s: argument must be a PID or %%jobid\<newline>'' [Str cmd]]\<rparr>))) \<and>
   do_bgfg cmd ([] # args) env s =
     Some (Inr (s\<lparr>trace := trace s @
       [Printf ''%s: argument must be a PID or %%jobid\<newline>'' [Str cmd]]\<rparr>))"
  by (auto simp: do_bgfg_def bgfg_step_def emit_def dest: isdigit_not_percent)

theorem do_bgfg_unresolved_witness:
  "do_bgfg ''fg'' [''%3''] [] two_jobs =
     Some (Inr (two_jobs\<lparr>trace := trace two_jobs @ [Printf ''%s: No such job\<newline>'' [Str ''%3'']]\<rparr>)) \<and>
   atoi ''4294967299'' = 3 \<and>
   do_bgfg ''bg'' [''%4294967299''] [] two_jobs =
     Some (Inr (two_jobs\<lparr>trace := trace two_jobs @
       [Printf ''%s: No such job\<newline>'' [Str ''%4294967299'']]\<rparr>)) \<and>
   do_bgfg ''bg'' [''77''] [] two_jobs =
     Some (Inr (two_jobs\<lparr>trace := trace two_jobs @ [Printf ''(%d): No such process\<newline>'' [Num 77]]\<rparr>)) \<and>
   do_bgfg ''fg'' [''x1''] [] two_jobs =
     Some (Inr (two_jobs\<lparr>trace := trace two_jobs @
       [Printf ''%s: argument must be a PID or %%jobid\<newline>'' [Str ''fg'']]\<rparr>))"
proof -
  have a: "getjobjid (jobs two_jobs) (atoi ''3'') = None" by code_simp
  have b: "isdigit CHR ''7''" "getjobpid (jobs two_jobs) (atoi ''77'') = None" by code_simp+
  have c: "CHR ''x'' \<noteq> CHR ''%''" "\<not> isdigit CHR ''x''" by code_simp+
  have d: "atoi ''77'' = 77" by code_simp
  from do_bgfg_unresolved [where cmd = "''fg''" and env = "[]" and s = two_jobs and cs = "''3''" and args = "[]"] a
  have 1: "do_bgfg ''fg'' [''%3''] [] two_jobs =
     Some (Inr (two_jobs\<lparr>trace := trace two_jobs @ [Printf ''%s: No such job\<newline>'' [Str ''%3'']]\<rparr>))"
    by simp
  from do_bgfg_unresolved [where cmd = "''bg''" and env = "[]" and s = two_jobs and c = "CHR ''7''" and cs = "''7''" and args = "[]"] b d
  have 2: "do_bgfg ''bg'' [''77''] [] two_jobs =
     Some (Inr (two_jobs\<lparr>trace := trace two_jobs @ [Printf ''(%d): No such process\<newline>'' [Num 77]]\<rparr>))"
    by simp
  from do_bgfg_unresolved [where cmd = "''fg''" and env = "[]" and s = two_jobs and c = "CHR ''x''" and cs = "''1''" and args = "[]"] c
  have 3: "do_bgfg ''fg'' [''x1''] [] two_jobs =
     Some (Inr (two_jobs\<lparr>trace := trace two_jobs @
       [Printf ''%s: argument must be a PID or %%jobid\<newline>'' [Str ''fg'']]\<rparr>))"
    by simp
  have e: "atoi ''4294967299'' = 3" by code_simp
  then have "getjobjid (jobs two_jobs) (atoi ''4294967299'') = None" using a d by code_simp
  with do_bgfg_unresolved [where cmd = "''bg''" and env = "[]" and s = two_jobs and cs = "''4294967299''" and args = "[]"]
  have 4: "do_bgfg ''bg'' [''%4294967299''] [] two_jobs =
     Some (Inr (two_jobs\<lparr>trace := trace two_jobs @
       [Printf ''%s: No such job\<newline>'' [Str ''%4294967299'']]\<rparr>))"
    by simp
  from 1 2 3 4 e show ?thesis by blast
qed

subsection \<open>C9\<close>

text \<open>
  C9. In a well-formed table with distinct pids, when the argument is \<^verbatim>\<open>%n\<close> and the first
  job with the ID that \<open>atoi\<close> reads from \<open>n\<close> is in slot \<open>i\<close>, or starts with a digit and
  \<open>atoi\<close> reads from it the pid of the job in slot \<open>i\<close> (\<open>atoi\<close> returns a 32-bit \<^verbatim>\<open>int\<close>, so
  \<^verbatim>\<open>%4294967297\<close> is job 1): \<^verbatim>\<open>bg\<close> sets the state of that job to \<open>BG\<close>, prints \<^verbatim>\<open>[%d] (%d) %s\<close> with the job's
  ID, pid and command line, sends \<^verbatim>\<open>SIGCONT\<close> to minus the pid, and returns; \<^verbatim>\<open>fg\<close> sets
  the state to \<open>FG\<close>, sends \<^verbatim>\<open>SIGCONT\<close> to minus the pid, and then does what \<open>waitfg\<close> does
  with the job's pid.
\<close>

theorem do_bgfg_resolved:
  assumes "wf_jobs (jobs s)" and "distinct_pids (jobs s)"
    and "(\<exists>cs. a1 = CHR ''%'' # cs \<and> getjobjid (jobs s) (atoi cs) = Some i) \<or>
         (\<exists>c cs. a1 = c # cs \<and> isdigit c \<and> getjobpid (jobs s) (atoi a1) = Some i)"
  shows "do_bgfg ''bg'' (a1 # args) env s =
      Some (Inr (s\<lparr>jobs := (jobs s)[i := (jobs s ! i)\<lparr>state := BG\<rparr>],
        trace := trace s @
          [Printf ''[%d] (%d) %s'' [Num (jid (jobs s ! i)), Num (pid (jobs s ! i)), Str (cmdline (jobs s ! i))],
           Kill (- pid (jobs s ! i)) SIGCONT]\<rparr>)) \<and>
    do_bgfg ''fg'' (a1 # args) env s =
      waitfg (pid (jobs s ! i)) env
        (s\<lparr>jobs := (jobs s)[i := (jobs s ! i)\<lparr>state := FG\<rparr>],
           trace := trace s @ [Kill (- pid (jobs s ! i)) SIGCONT]\<rparr>)"
proof -
  from bgfg_step_resolved [OF assms]
  have g: "getjobpid (jobs s) (pid (jobs s ! i)) = Some i"
    and st: "\<And>cmd. bgfg_step cmd (a1 # args) s = bgfg_switch cmd i (pid (jobs s ! i)) s"
    by simp_all
  show ?thesis
    by (simp add: do_bgfg_def st bgfg_switch_fg
        bgfg_switch_bg [OF g wf_jobs_length [OF assms(1)]])
qed

theorem do_bgfg_resolved_witness:
  "wf_jobs (jobs two_jobs) \<and> distinct_pids (jobs two_jobs) \<and>
   getjobjid (jobs two_jobs) (atoi ''2'') = Some 1 \<and>
   do_bgfg ''bg'' [''%2''] [] two_jobs =
      Some (Inr (two_jobs\<lparr>jobs := (jobs two_jobs)[1 := (jobs two_jobs ! 1)\<lparr>state := BG\<rparr>],
        trace := trace two_jobs @
          [Printf ''[%d] (%d) %s'' [Num 2, Num 6, Str ''sleep 5 &\<newline>''], Kill (- 6) SIGCONT]\<rparr>)) \<and>
   do_bgfg ''fg'' [''%2''] [] two_jobs =
      waitfg 6 []
        (two_jobs\<lparr>jobs := (jobs two_jobs)[1 := (jobs two_jobs ! 1)\<lparr>state := FG\<rparr>],
           trace := trace two_jobs @ [Kill (- 6) SIGCONT]\<rparr>) \<and>
   isdigit CHR ''5'' \<and> getjobpid (jobs two_jobs) (atoi ''5'') = Some 0 \<and>
   do_bgfg ''bg'' [''5''] [] two_jobs =
      Some (Inr (two_jobs\<lparr>jobs := (jobs two_jobs)[0 := (jobs two_jobs ! 0)\<lparr>state := BG\<rparr>],
        trace := trace two_jobs @
          [Printf ''[%d] (%d) %s'' [Num 1, Num 5, Str ''vi\<newline>''], Kill (- 5) SIGCONT]\<rparr>)) \<and>
   getjobjid (jobs two_jobs) (atoi ''4294967297'') = Some 0 \<and>
   do_bgfg ''bg'' [''%4294967297''] [] two_jobs =
      Some (Inr (two_jobs\<lparr>jobs := (jobs two_jobs)[0 := (jobs two_jobs ! 0)\<lparr>state := BG\<rparr>],
        trace := trace two_jobs @
          [Printf ''[%d] (%d) %s'' [Num 1, Num 5, Str ''vi\<newline>''], Kill (- 5) SIGCONT]\<rparr>))"
proof -
  have a: "wf_jobs (jobs two_jobs)" by code_simp
  have b: "distinct_pids (jobs two_jobs)" by code_simp
  have c: "getjobjid (jobs two_jobs) (atoi ''2'') = Some 1" by code_simp
  then have c': "(\<exists>cs. ''%2'' = CHR ''%'' # cs \<and> getjobjid (jobs two_jobs) (atoi cs) = Some 1) \<or>
         (\<exists>c cs. ''%2'' = c # cs \<and> isdigit c \<and> getjobpid (jobs two_jobs) (atoi ''%2'') = Some 1)"
    by simp
  have d: "jid (jobs two_jobs ! 1) = 2" "pid (jobs two_jobs ! 1) = 6"
    "cmdline (jobs two_jobs ! 1) = ''sleep 5 &\<newline>''" by code_simp+
  from do_bgfg_resolved [OF a b c', where args = "[]" and env = "[]"] d
  have 1: "do_bgfg ''bg'' [''%2''] [] two_jobs =
      Some (Inr (two_jobs\<lparr>jobs := (jobs two_jobs)[1 := (jobs two_jobs ! 1)\<lparr>state := BG\<rparr>],
        trace := trace two_jobs @
          [Printf ''[%d] (%d) %s'' [Num 2, Num 6, Str ''sleep 5 &\<newline>''], Kill (- 6) SIGCONT]\<rparr>))"
    and 2: "do_bgfg ''fg'' [''%2''] [] two_jobs =
      waitfg 6 []
        (two_jobs\<lparr>jobs := (jobs two_jobs)[1 := (jobs two_jobs ! 1)\<lparr>state := FG\<rparr>],
           trace := trace two_jobs @ [Kill (- 6) SIGCONT]\<rparr>)"
    by simp_all
  have e: "isdigit CHR ''5''" "getjobpid (jobs two_jobs) (atoi ''5'') = Some 0" by code_simp+
  then have e': "(\<exists>cs. ''5'' = CHR ''%'' # cs \<and> getjobjid (jobs two_jobs) (atoi cs) = Some 0) \<or>
         (\<exists>c cs. ''5'' = c # cs \<and> isdigit c \<and> getjobpid (jobs two_jobs) (atoi ''5'') = Some 0)"
    by simp
  have f: "jid (jobs two_jobs ! 0) = 1" "pid (jobs two_jobs ! 0) = 5"
    "cmdline (jobs two_jobs ! 0) = ''vi\<newline>''" by code_simp+
  from do_bgfg_resolved [OF a b e', where args = "[]" and env = "[]"] f
  have 3: "do_bgfg ''bg'' [''5''] [] two_jobs =
      Some (Inr (two_jobs\<lparr>jobs := (jobs two_jobs)[0 := (jobs two_jobs ! 0)\<lparr>state := BG\<rparr>],
        trace := trace two_jobs @
          [Printf ''[%d] (%d) %s'' [Num 1, Num 5, Str ''vi\<newline>''], Kill (- 5) SIGCONT]\<rparr>))"
    by simp
  have g: "getjobjid (jobs two_jobs) (atoi ''4294967297'') = Some 0" by code_simp
  then have g': "(\<exists>cs. ''%4294967297'' = CHR ''%'' # cs \<and> getjobjid (jobs two_jobs) (atoi cs) = Some 0) \<or>
         (\<exists>c cs. ''%4294967297'' = c # cs \<and> isdigit c \<and>
            getjobpid (jobs two_jobs) (atoi ''%4294967297'') = Some 0)"
    by simp
  from do_bgfg_resolved [OF a b g', where args = "[]" and env = "[]"] f
  have 4: "do_bgfg ''bg'' [''%4294967297''] [] two_jobs =
      Some (Inr (two_jobs\<lparr>jobs := (jobs two_jobs)[0 := (jobs two_jobs ! 0)\<lparr>state := BG\<rparr>],
        trace := trace two_jobs @
          [Printf ''[%d] (%d) %s'' [Num 1, Num 5, Str ''vi\<newline>''], Kill (- 5) SIGCONT]\<rparr>))"
    by simp
  from a b c e g 1 2 3 4 show ?thesis by blast
qed

subsection \<open>C10\<close>

text \<open>
  C10, as stated: whenever the child-status handler reaps a stopped child, the child's pid
  is in the table, so the lookup in the stopped branch never returns \<^verbatim>\<open>NULL\<close>. The code
  breaks it. \<^verbatim>\<open>eval\<close> does not look at the result of \<open>addjob\<close>: with sixteen jobs in the
  table a seventeenth child runs without a job. When that child stops, \<^verbatim>\<open>waitpid\<close> reports it
  (\<^verbatim>\<open>WUNTRACED\<close>), \<open>getjobpid\<close> returns \<^verbatim>\<open>NULL\<close>, and the handler writes through it.
\<close>

theorem sigchld_stopped_untracked_child:
  "shell_run
    [Launch True 101 ''sleep 100 &\<newline>'' [], Launch True 102 ''sleep 100 &\<newline>'' [],
     Launch True 103 ''sleep 100 &\<newline>'' [], Launch True 104 ''sleep 100 &\<newline>'' [],
     Launch True 105 ''sleep 100 &\<newline>'' [], Launch True 106 ''sleep 100 &\<newline>'' [],
     Launch True 107 ''sleep 100 &\<newline>'' [], Launch True 108 ''sleep 100 &\<newline>'' [],
     Launch True 109 ''sleep 100 &\<newline>'' [], Launch True 110 ''sleep 100 &\<newline>'' [],
     Launch True 111 ''sleep 100 &\<newline>'' [], Launch True 112 ''sleep 100 &\<newline>'' [],
     Launch True 113 ''sleep 100 &\<newline>'' [], Launch True 114 ''sleep 100 &\<newline>'' [],
     Launch True 115 ''sleep 100 &\<newline>'' [], Launch True 116 ''sleep 100 &\<newline>'' [],
     Launch True 117 ''cat &\<newline>'' [],
     Signal (SigChld [(117, Stopped 19)])] init_shell = Some (Inl NullDeref)"
  by code_simp

end
